theory Spec2Isabelle
  imports Main "HOL-Library.Word" "HOL-Library.Multiset"
begin

section \<open>Contact assembly of DOLFINx\_Contact (\<^verbatim>\<open>cpp/Contact.cpp\<close>)\<close>

text \<open>
  A shallow embedding of \<^verbatim>\<open>compute_linked_cells\<close>, \<^verbatim>\<open>Contact::coefficients_size\<close>,
  \<^verbatim>\<open>Contact::create_petsc_matrix\<close>, \<^verbatim>\<open>Contact::assemble_matrix\<close> and
  \<^verbatim>\<open>Contact::assemble_vector\<close>.

  Conventions of the embedding.
  \<^item> Cell, facet and dof indices (\<^verbatim>\<open>std::int32_t\<close>, local to the process) and sizes are
    natural numbers; every read or write through an index is checked, and an access outside
    its container (undefined behaviour in C++) is the error \<open>OutOfBounds\<close>.
  \<^item> A failing \<^verbatim>\<open>assert\<close> is the error \<open>AssertionFailure\<close> (a build with assertions on);
    the exception of \<^verbatim>\<open>std::vector::at\<close> is the error \<open>OutOfRange\<close>.
  \<^item> \<^verbatim>\<open>std::size_t\<close> arithmetic whose value is returned is done on 64 bit words.
  \<^item> \<^verbatim>\<open>PetscScalar\<close> and \<^verbatim>\<open>double\<close> values are elements of a type with \<open>0\<close> and \<open>+\<close>;
    the code only copies, zeroes and adds them.  A statement that needs more of the
    addition says so; a type whose sums round as those of \<^verbatim>\<open>double\<close> is defined below.
  \<^item> A \<^verbatim>\<open>std::array<T, 2>\<close> is a pair, indexed by \<open>0\<close> and \<open>1\<close>.
  \<^item> The two injected callbacks are observed through the calls made to them: each call of
    \<^verbatim>\<open>kernel\<close> and of \<^verbatim>\<open>mat_set\<close> is recorded, with its arguments, in a list of events.
    The kernel is a function from its arguments to the new contents of the block set it
    receives by reference.
\<close>

subsection \<open>Errors and checked accesses\<close>

datatype error = AssertionFailure | OutOfBounds | OutOfRange

definition bind :: "error + 'a \<Rightarrow> ('a \<Rightarrow> error + 'b) \<Rightarrow> error + 'b" where
  "bind m f = (case m of Inl e \<Rightarrow> Inl e | Inr x \<Rightarrow> f x)"

text \<open>\<^verbatim>\<open>xs[i]\<close>, read.\<close>

definition at :: "'a list \<Rightarrow> nat \<Rightarrow> error + 'a" where
  "at xs i = (if i < length xs then Inr (xs ! i) else Inl OutOfBounds)"

text \<open>\<^verbatim>\<open>xs[i] = v\<close>.\<close>

definition put :: "'a list \<Rightarrow> nat \<Rightarrow> 'a \<Rightarrow> error + 'a list" where
  "put xs i v = (if i < length xs then Inr (xs[i := v]) else Inl OutOfBounds)"

text \<open>\<^verbatim>\<open>a[i]\<close> on a \<^verbatim>\<open>std::array<T, 2>\<close>.\<close>

definition at2 :: "'a \<times> 'a \<Rightarrow> nat \<Rightarrow> error + 'a" where
  "at2 a i = (if i = 0 then Inr (fst a) else if i = 1 then Inr (snd a) else Inl OutOfBounds)"

text \<open>A \<^verbatim>\<open>for\<close> loop over the items \<open>xs\<close> whose body may fail: the first failure ends it.\<close>

fun for_each :: "('i \<Rightarrow> 's \<Rightarrow> error + 's) \<Rightarrow> 'i list \<Rightarrow> 's \<Rightarrow> error + 's" where
  "for_each body [] s = Inr s"
| "for_each body (x # xs) s = bind (body x s) (for_each body xs)"

text \<open>\<^verbatim>\<open>std::transform\<close> with a function that may fail, front to back.\<close>

fun transform :: "('a \<Rightarrow> error + 'b) \<Rightarrow> 'a list \<Rightarrow> error + 'b list" where
  "transform f [] = Inr []"
| "transform f (x # xs) = bind (f x) (\<lambda>y. bind (transform f xs) (\<lambda>ys. Inr (y # ys)))"

subsection \<open>Library functions used by the code\<close>

text \<open>
  \<^verbatim>\<open>dolfinx::graph::AdjacencyList<std::int32_t>\<close>: one row of links per node;
  \<^verbatim>\<open>links(i)\<close> is row \<open>i\<close>.
\<close>

type_synonym adjacency_list = "nat list list"

definition links :: "adjacency_list \<Rightarrow> nat \<Rightarrow> error + nat list" where
  "links g i = at g i"

text \<open>
  \<^verbatim>\<open>dolfinx::radix_sort\<close> is a function of DOLFINx, not of this repository: it sorts a span
  of integers in place, ascending.
\<close>

definition radix_sort :: "nat list \<Rightarrow> nat list" where
  "radix_sort xs = sort xs"

text \<open>
  \<^verbatim>\<open>v.erase(std::unique(v.begin(), v.end()), v.end())\<close>: of each run of equal neighbours
  the first is kept.
\<close>

definition erase_unique :: "nat list \<Rightarrow> nat list" where
  "erase_unique xs = remdups_adj xs"

subsection \<open>\<^verbatim>\<open>compute_linked_cells\<close>\<close>

text \<open>
  The function given to \<^verbatim>\<open>std::transform\<close> (lines 32 to 38): the (cell, facet) pair of the
  submesh facet, the assertion that it has two entries, and the parent cell of its first
  entry.  The index \<open>0\<close> is inside the pair once the assertion has passed.
\<close>

definition linked_cell :: "adjacency_list \<Rightarrow> nat list \<Rightarrow> nat \<Rightarrow> error + nat" where
  "linked_cell sub_to_parent parent_cells facet =
     bind (links sub_to_parent facet) (\<lambda>facet_pair.
       if length facet_pair \<noteq> 2 then Inl AssertionFailure
       else at parent_cells (facet_pair ! 0))"

text \<open>
  The vector \<^verbatim>\<open>linked_cells\<close> is resized and overwritten, so its old contents play no part:
  the new contents are the result.
\<close>

definition compute_linked_cells ::
  "nat list \<Rightarrow> adjacency_list \<Rightarrow> nat list \<Rightarrow> error + nat list" where
  "compute_linked_cells submesh_facets sub_to_parent parent_cells =
     bind (transform (linked_cell sub_to_parent parent_cells) submesh_facets) (\<lambda>linked_cells.
       Inr (erase_unique (radix_sort linked_cells)))"

subsection \<open>The state of a \<^verbatim>\<open>Contact\<close> object\<close>

text \<open>
  \<^verbatim>\<open>Contact.h\<close> is not among the sources; the members are the ones \<^verbatim>\<open>Contact.cpp\<close> reads, with
  the types their uses require.  The mesh geometry (\<open>gdim\<close>, \<open>x_dofmap\<close>, \<open>x_g\<close>,
  \<open>num_dofs_g\<close>) is reached through \<^verbatim>\<open>_marker->mesh()\<close>, the dof map (\<open>cell_dofs\<close>, \<open>bs\<close>)
  through \<^verbatim>\<open>_V->dofmap()\<close>.
\<close>

record submesh =
  facet_map :: adjacency_list
  parent_cells :: "nat list"

record 'g contact =
  gdim :: nat
  x_dofmap :: adjacency_list
  x_g :: "'g list"
  num_dofs_g :: nat
  cell_dofs :: adjacency_list
  bs :: nat
  cell_facet_pairs :: "(nat \<times> nat) list \<times> (nat \<times> nat) list"
  submeshes :: "submesh \<times> submesh"
  facet_maps :: "adjacency_list \<times> adjacency_list"
  opposites :: "nat \<times> nat"
  max_links :: "64 word \<times> 64 word"
  qp_ref_facet :: "'g list list list"

subsection \<open>\<^verbatim>\<open>Contact::coefficients_size\<close>\<close>

text \<open>
  \<^verbatim>\<open>*std::max_element(a.begin(), a.end())\<close> on an array of two: the first of the largest.
\<close>

definition max_element :: "64 word \<times> 64 word \<Rightarrow> 64 word" where
  "max_element a = (if fst a < snd a then snd a else fst a)"

definition coefficients_size :: "'g contact \<Rightarrow> error + 64 word" where
  "coefficients_size c =
     (let gdim = (of_nat (gdim c) :: 64 word) in
      bind (at (cell_dofs c) 0) (\<lambda>dofs0.
      let ndofs_cell = (of_nat (length dofs0) :: 64 word);
          bs = (of_nat (bs c) :: 64 word) in
      bind (at (qp_ref_facet c) 0) (\<lambda>qp0.
      let num_q_points = (of_nat (length qp0) :: 64 word);
          max_links = max_element (max_links c) in
      Inr (3 + num_q_points * (2 * gdim + ndofs_cell * bs * max_links + bs)
             + ndofs_cell * bs))))"

text \<open>
  The size formula of the specification, on natural numbers:
  \<open>size(numQuadPoints, gdim, dofsPerCell, blockSize, maxLinksGlobal)\<close>.
\<close>

definition size_formula :: "nat \<Rightarrow> nat \<Rightarrow> nat \<Rightarrow> nat \<Rightarrow> nat \<Rightarrow> nat" where
  "size_formula numQuadPoints gd dofsPerCell blockSize maxLinksGlobal =
     3 + numQuadPoints * (2 * gd + dofsPerCell * blockSize * maxLinksGlobal + blockSize)
       + dofsPerCell * blockSize"

text \<open>
  A \<^verbatim>\<open>Contact\<close> object whose five size parameters are the given ones: \<open>dofsPerCell\<close> dofs
  in cell \<open>0\<close>, \<open>numQuadPoints\<close> rows in the first quadrature table, and the two per surface
  link maxima \<open>m0\<close> and \<open>m1\<close>.  The other members are not read by \<open>coefficients_size\<close>.
\<close>

definition size_params ::
  "nat \<Rightarrow> nat \<Rightarrow> nat \<Rightarrow> nat \<Rightarrow> 64 word \<Rightarrow> 64 word \<Rightarrow> nat contact" where
  "size_params numQuadPoints gd dofsPerCell blockSize m0 m1 =
     \<lparr> gdim = gd, x_dofmap = [], x_g = [], num_dofs_g = 0,
       cell_dofs = [[0..<dofsPerCell]], bs = blockSize,
       cell_facet_pairs = ([], []),
       submeshes = (\<lparr>facet_map = [], parent_cells = []\<rparr>, \<lparr>facet_map = [], parent_cells = []\<rparr>),
       facet_maps = ([], []), opposites = (1, 0), max_links = (m0, m1),
       qp_ref_facet = [replicate numQuadPoints []] \<rparr>"

text \<open>The parameters of the size formula, read off a \<^verbatim>\<open>Contact\<close> object.\<close>

definition numQuadPoints :: "'g contact \<Rightarrow> nat" where
  "numQuadPoints c = length (qp_ref_facet c ! 0)"

definition dofsPerCell :: "'g contact \<Rightarrow> nat" where
  "dofsPerCell c = length (cell_dofs c ! 0)"

definition maxLinksGlobal :: "'g contact \<Rightarrow> nat" where
  "maxLinksGlobal c = unat (max (fst (max_links c)) (snd (max_links c)))"

subsection \<open>\<^verbatim>\<open>Contact::create_petsc_matrix\<close>\<close>

text \<open>
  \<^verbatim>\<open>dolfinx::la::SparsityPattern\<close> is a class of DOLFINx: the pattern is the set of
  (row, column) pairs for which storage is reserved, and \<^verbatim>\<open>insert(rows, cols)\<close> adds every
  pair of a row of \<open>rows\<close> and a column of \<open>cols\<close>.
\<close>

type_synonym sparsity_pattern = "(nat \<times> nat) set"

definition insert_pattern :: "nat list \<Rightarrow> nat list \<Rightarrow> sparsity_pattern \<Rightarrow> sparsity_pattern" where
  "insert_pattern rows cols pattern = pattern \<union> set rows \<times> set cols"

text \<open>
  Of the form \<^verbatim>\<open>a\<close> the function reads the pattern that
  \<^verbatim>\<open>dolfinx::fem::create_sparsity_pattern(a)\<close> builds and the dof maps of its function
  spaces.
\<close>

record form =
  create_sparsity_pattern :: sparsity_pattern
  function_spaces :: "adjacency_list list"

text \<open>\<^verbatim>\<open>v.at(i)\<close> of a \<^verbatim>\<open>std::vector\<close>, which throws.\<close>

definition vector_at :: "'a list \<Rightarrow> nat \<Rightarrow> error + 'a" where
  "vector_at xs i = (if i < length xs then Inr (xs ! i) else Inl OutOfRange)"

text \<open>
  Lines 123 to 130: the dofs of the cells linked to a facet, appended in the order of the
  links.
\<close>

definition push_linked_dofs ::
  "adjacency_list \<Rightarrow> adjacency_list \<Rightarrow> nat list \<Rightarrow> nat \<Rightarrow> nat list \<Rightarrow> error + nat list" where
  "push_linked_dofs dofmap fmap pcells link linked_dofs =
     bind (links fmap link) (\<lambda>facet_pair.
     bind (at facet_pair 0) (\<lambda>linked_sub_cell.
     bind (at pcells linked_sub_cell) (\<lambda>linked_cell.
     bind (links dofmap linked_cell) (\<lambda>linked_cell_dofs.
     Inr (linked_dofs @ linked_cell_dofs)))))"

text \<open>Lines 119 to 138: the body of the loop over the facets of surface \<open>s\<close>.\<close>

definition insert_facet ::
  "'g contact \<Rightarrow> adjacency_list \<Rightarrow> nat \<Rightarrow> adjacency_list \<Rightarrow> nat list \<Rightarrow> (nat \<times> nat) list \<Rightarrow>
   nat \<Rightarrow> sparsity_pattern \<Rightarrow> error + sparsity_pattern" where
  "insert_facet c dofmap s fmap pcells pairs i pattern =
     (let cell = fst (pairs ! i) in
      bind (links dofmap cell) (\<lambda>dofs_of_cell.
      bind (at2 (facet_maps c) s) (\<lambda>m.
      bind (links m i) (\<lambda>candidates.
      bind (for_each (push_linked_dofs dofmap fmap pcells) candidates []) (\<lambda>linked_dofs.
      let linked_dofs = erase_unique (radix_sort linked_dofs) in
      Inr (insert_pattern linked_dofs dofs_of_cell
             (insert_pattern dofs_of_cell linked_dofs pattern)))))))"

text \<open>Lines 115 to 139: the body of the loop over the two surfaces.\<close>

definition insert_surface ::
  "'g contact \<Rightarrow> adjacency_list \<Rightarrow> nat \<Rightarrow> sparsity_pattern \<Rightarrow> error + sparsity_pattern" where
  "insert_surface c dofmap s pattern =
     bind (at2 (opposites c) s) (\<lambda>opp.
     bind (at2 (submeshes c) opp) (\<lambda>sm.
     bind (at2 (cell_facet_pairs c) s) (\<lambda>pairs.
     for_each (insert_facet c dofmap s (facet_map sm) (parent_cells sm) pairs)
       [0..<length pairs] pattern)))"

text \<open>
  The result is the pattern from which the matrix is created; \<^verbatim>\<open>pattern.assemble()\<close> and
  \<^verbatim>\<open>create_matrix\<close> belong to DOLFINx and do not add or remove entries of the local
  pattern.  The matrix type \<^verbatim>\<open>type\<close> plays no part in the pattern.
\<close>

definition create_petsc_matrix :: "'g contact \<Rightarrow> form \<Rightarrow> error + sparsity_pattern" where
  "create_petsc_matrix c a =
     (let pattern = create_sparsity_pattern a in
      bind (vector_at (function_spaces a) 0) (\<lambda>dofmap.
      for_each (insert_surface c dofmap) [0, 1] pattern))"

subsection \<open>The callbacks\<close>

text \<open>
  The arguments of one call of \<^verbatim>\<open>kernel\<close>, in the order of the call: the block set, the
  coefficients from \<^verbatim>\<open>coeffs.data() + i * cstride\<close> on, the constants, the coordinates of
  the cell, the local index of the facet, the permutation indicator and the number of
  linked cells.
\<close>

record ('a, 'g) kernel_args =
  k_blocks :: "'a list list"
  k_coeffs :: "'a list"
  k_constants :: "'a list"
  k_coordinate_dofs :: "'g list"
  k_local_index :: nat
  k_perm :: "8 word"
  k_num_linked_cells :: nat

type_synonym ('a, 'g) contact_kernel_fn = "('a, 'g) kernel_args \<Rightarrow> 'a list list"

datatype ('a, 'g) event =
    Kernel "('a, 'g) kernel_args"
  | Mat_set "nat list" "nat list" "'a list"

subsection \<open>What the two assemblers share\<close>

text \<open>\<^verbatim>\<open>std::copy_n(first, n, result)\<close>, with the two iterators as array and offset.\<close>

definition copy_n :: "'g list \<Rightarrow> nat \<Rightarrow> nat \<Rightarrow> 'g list \<Rightarrow> nat \<Rightarrow> error + 'g list" where
  "copy_n src first n dst result =
     for_each (\<lambda>d dst. bind (at src (first + d)) (\<lambda>v. put dst (result + d) v)) [0..<n] dst"

text \<open>
  Lines 189 to 194 and 277 to 282: the coordinates of the nodes of the cell are copied into
  the buffer, three slots a node.  The index \<open>j\<close> is inside \<open>x_dofs\<close> by the loop bound.
\<close>

definition gather_coordinates :: "'g contact \<Rightarrow> nat list \<Rightarrow> 'g list \<Rightarrow> error + 'g list" where
  "gather_coordinates c x_dofs coordinate_dofs =
     for_each (\<lambda>j coordinate_dofs.
         copy_n (x_g c) (3 * (x_dofs ! j)) (gdim c) coordinate_dofs (j * 3))
       [0..<length x_dofs] coordinate_dofs"

text \<open>\<^verbatim>\<open>std::fill(Aes[k].begin(), Aes[k].end(), 0)\<close>.\<close>

definition fill_zero :: "('a::zero) list list \<Rightarrow> nat \<Rightarrow> error + 'a list list" where
  "fill_zero Aes k = bind (at Aes k) (\<lambda>block. put Aes k (replicate (length block) 0))"

text \<open>
  The locals both assemblers set up before their loop (lines 155 to 178 and 238 to 264):
  the number of dofs of cell \<open>0\<close>, the larger of the two link maxima, the facets of the
  origin surface, its facet map, and the two maps of the opposite submesh.
\<close>

record locals =
  ndofs_cell :: nat
  max_links_both :: "64 word"
  active_facets :: "(nat \<times> nat) list"
  map_of_origin :: adjacency_list
  facet_map_of_opposite :: adjacency_list
  parent_cells_of_opposite :: "nat list"

definition assembly_locals :: "'g contact \<Rightarrow> nat \<Rightarrow> error + locals" where
  "assembly_locals c origin_meshtag =
     bind (at (cell_dofs c) 0) (\<lambda>dofs0.
     bind (at2 (cell_facet_pairs c) origin_meshtag) (\<lambda>facets.
     bind (at2 (facet_maps c) origin_meshtag) (\<lambda>m.
     bind (at2 (opposites c) origin_meshtag) (\<lambda>opp.
     bind (at2 (submeshes c) opp) (\<lambda>sm.
     Inr \<lparr> ndofs_cell = length dofs0,
           max_links_both = max (fst (max_links c)) (snd (max_links c)),
           active_facets = facets,
           map_of_origin = m,
           facet_map_of_opposite = facet_map sm,
           parent_cells_of_opposite = parent_cells sm \<rparr>)))))"

text \<open>
  Lines 187 to 197 and 274 to 286: the facet, the coordinates of its cell and the cells
  linked to it.  The result is the cell, the local index of the facet, the coordinate
  buffer and the linked cells.
\<close>

definition facet_geometry ::
  "'g contact \<Rightarrow> locals \<Rightarrow> nat \<Rightarrow> 'g list \<Rightarrow> error + (nat \<times> nat \<times> 'g list \<times> nat list)" where
  "facet_geometry c l i coordinate_dofs =
     bind (at (active_facets l) i) (\<lambda>facet.
     let cell = fst facet; local_index = snd facet in
     bind (links (x_dofmap c) cell) (\<lambda>x_dofs.
     bind (gather_coordinates c x_dofs coordinate_dofs) (\<lambda>coordinate_dofs.
     bind (links (map_of_origin l) i) (\<lambda>candidates.
     bind (compute_linked_cells candidates (facet_map_of_opposite l) (parent_cells_of_opposite l))
       (\<lambda>linked_cells.
     Inr (cell, local_index, coordinate_dofs, linked_cells))))))"

subsection \<open>\<^verbatim>\<open>Contact::assemble_matrix\<close>\<close>

text \<open>Lines 201 to 207.\<close>

definition zero_Aes :: "nat \<Rightarrow> ('a::zero) list list \<Rightarrow> error + 'a list list" where
  "zero_Aes num_linked_cells Aes =
     bind (fill_zero Aes 0) (\<lambda>Aes.
     for_each (\<lambda>j Aes.
         bind (fill_zero Aes (3 * j + 1)) (\<lambda>Aes.
         bind (fill_zero Aes (3 * j + 2)) (\<lambda>Aes.
         fill_zero Aes (3 * j + 3))))
       [0..<num_linked_cells] Aes)"

text \<open>
  Lines 221 to 227: the three calls of \<^verbatim>\<open>mat_set\<close> for linked cell \<open>j\<close>.  The index \<open>j\<close> is
  inside \<open>linked_cells\<close> by the loop bound.
\<close>

definition mat_set_linked ::
  "'g contact \<Rightarrow> nat list \<Rightarrow> nat list \<Rightarrow> 'a list list \<Rightarrow> nat \<Rightarrow> ('a, 'g) event list \<Rightarrow>
   error + ('a, 'g) event list" where
  "mat_set_linked c dmap_cell linked_cells Aes j events =
     bind (links (cell_dofs c) (linked_cells ! j)) (\<lambda>dmap_linked.
     bind (at Aes (3 * j + 1)) (\<lambda>A1.
     bind (at Aes (3 * j + 2)) (\<lambda>A2.
     bind (at Aes (3 * j + 3)) (\<lambda>A3.
     Inr (events @ [Mat_set dmap_cell dmap_linked A1, Mat_set dmap_linked dmap_cell A2,
                    Mat_set dmap_linked dmap_linked A3])))))"

text \<open>
  Lines 187 to 227: the body of the loop over the facets.  The state that one facet hands
  to the next is the coordinate buffer, the block set \<^verbatim>\<open>Aes\<close> and the calls made so far.
\<close>

definition assemble_matrix_facet ::
  "'g contact \<Rightarrow> locals \<Rightarrow> ('a::zero, 'g) contact_kernel_fn \<Rightarrow> 'a list \<Rightarrow> nat \<Rightarrow> 'a list \<Rightarrow> nat \<Rightarrow>
   'g list \<times> 'a list list \<times> ('a, 'g) event list \<Rightarrow>
   error + 'g list \<times> 'a list list \<times> ('a, 'g) event list" where
  "assemble_matrix_facet c l kernel_fn coeffs cstride constants i st =
     (case st of (coordinate_dofs, Aes, events) \<Rightarrow>
      bind (facet_geometry c l i coordinate_dofs)
        (\<lambda>(cell, local_index, coordinate_dofs, linked_cells).
      let num_linked_cells = length linked_cells in
      bind (zero_Aes num_linked_cells Aes) (\<lambda>Aes.
      let args = \<lparr> k_blocks = Aes, k_coeffs = drop (i * cstride) coeffs,
                   k_constants = constants, k_coordinate_dofs = coordinate_dofs,
                   k_local_index = local_index, k_perm = 0,
                   k_num_linked_cells = num_linked_cells \<rparr>;
          events = events @ [Kernel args];
          Aes = kernel_fn args in
      bind (links (cell_dofs c) cell) (\<lambda>dmap_cell.
      bind (at Aes 0) (\<lambda>A0.
      let events = events @ [Mat_set dmap_cell dmap_cell A0] in
      bind (for_each (mat_set_linked c dmap_cell linked_cells Aes) [0..<num_linked_cells] events)
        (\<lambda>events.
      Inr (coordinate_dofs, Aes, events)))))))"

text \<open>
  The function returns nothing; what it does is the sequence of calls of \<^verbatim>\<open>kernel\<close> and
  \<^verbatim>\<open>mat_set\<close>.  The Dirichlet conditions \<^verbatim>\<open>bcs\<close> are not used.
\<close>

definition assemble_matrix ::
  "'g::zero contact \<Rightarrow> nat \<Rightarrow> ('a::zero, 'g) contact_kernel_fn \<Rightarrow> 'a list \<Rightarrow> nat \<Rightarrow> 'a list \<Rightarrow>
   error + ('a, 'g) event list" where
  "assemble_matrix c origin_meshtag kernel_fn coeffs cstride constants =
     bind (assembly_locals c origin_meshtag) (\<lambda>l.
     let coordinate_dofs = replicate (3 * num_dofs_g c) 0;
         Aes = replicate (unat (3 * max_links_both l + 1))
                 (replicate (bs c * ndofs_cell l * bs c * ndofs_cell l) 0) in
     bind (for_each (assemble_matrix_facet c l kernel_fn coeffs cstride constants)
             [0..<length (active_facets l)] (coordinate_dofs, Aes, []))
       (\<lambda>(coordinate_dofs, Aes, events). Inr events))"

subsection \<open>\<^verbatim>\<open>Contact::assemble_vector\<close>\<close>

text \<open>Lines 290 to 292.\<close>

definition zero_bes :: "nat \<Rightarrow> ('a::zero) list list \<Rightarrow> error + 'a list list" where
  "zero_bes num_linked_cells bes =
     bind (fill_zero bes 0) (\<lambda>bes.
     for_each (\<lambda>j bes. fill_zero bes (j + 1)) [0..<num_linked_cells] bes)"

text \<open>
  Lines 301 to 303 and 307 to 309: block \<open>blk\<close> of \<open>bes\<close> is added to \<open>b\<close> at the dofs
  \<open>dofs\<close>.
\<close>

definition add_block ::
  "nat \<Rightarrow> nat \<Rightarrow> nat list \<Rightarrow> 'a list list \<Rightarrow> nat \<Rightarrow> ('a::plus) list \<Rightarrow> error + 'a list" where
  "add_block block_size ndofs dofs bes blk b =
     for_each (\<lambda>j.
       for_each (\<lambda>k b.
           bind (at dofs j) (\<lambda>dof.
           bind (at bes blk) (\<lambda>be.
           bind (at be (block_size * j + k)) (\<lambda>v.
           bind (at b (block_size * dof + k)) (\<lambda>old.
           put b (block_size * dof + k) (old + v))))))
         [0..<block_size])
       [0..<ndofs] b"

text \<open>Lines 300 to 310.  The index \<open>l\<close> is inside \<open>linked_cells\<close> by the loop bound.\<close>

definition add_element_vector ::
  "'g contact \<Rightarrow> nat \<Rightarrow> nat \<Rightarrow> nat list \<Rightarrow> 'a list list \<Rightarrow> ('a::plus) list \<Rightarrow> error + 'a list" where
  "add_element_vector c ndofs cell linked_cells bes b =
     bind (links (cell_dofs c) cell) (\<lambda>dofs_cell.
     bind (add_block (bs c) ndofs dofs_cell bes 0 b) (\<lambda>b.
     for_each (\<lambda>l b.
         bind (links (cell_dofs c) (linked_cells ! l)) (\<lambda>dofs_linked.
         add_block (bs c) ndofs dofs_linked bes (l + 1) b))
       [0..<length linked_cells] b))"

text \<open>
  Lines 274 to 310: the body of the loop over the facets.  The state that one facet hands
  to the next is the vector \<open>b\<close>, the coordinate buffer, the block set \<^verbatim>\<open>bes\<close> and the calls
  of the kernel made so far.
\<close>

definition assemble_vector_facet ::
  "'g contact \<Rightarrow> locals \<Rightarrow> ('a::{zero,plus}, 'g) contact_kernel_fn \<Rightarrow> 'a list \<Rightarrow> nat \<Rightarrow> 'a list \<Rightarrow>
   nat \<Rightarrow> 'a list \<times> 'g list \<times> 'a list list \<times> ('a, 'g) event list \<Rightarrow>
   error + 'a list \<times> 'g list \<times> 'a list list \<times> ('a, 'g) event list" where
  "assemble_vector_facet c l kernel_fn coeffs cstride constants i st =
     (case st of (b, coordinate_dofs, bes, events) \<Rightarrow>
      bind (facet_geometry c l i coordinate_dofs)
        (\<lambda>(cell, local_index, coordinate_dofs, linked_cells).
      let num_linked_cells = length linked_cells in
      bind (zero_bes num_linked_cells bes) (\<lambda>bes.
      let args = \<lparr> k_blocks = bes, k_coeffs = drop (i * cstride) coeffs,
                   k_constants = constants, k_coordinate_dofs = coordinate_dofs,
                   k_local_index = local_index, k_perm = 0,
                   k_num_linked_cells = num_linked_cells \<rparr>;
          events = events @ [Kernel args];
          bes = kernel_fn args in
      bind (add_element_vector c (ndofs_cell l) cell linked_cells bes b) (\<lambda>b.
      Inr (b, coordinate_dofs, bes, events)))))"

text \<open>
  Lines 266 to 311: the buffers and the loop, with the facets taken in the order \<open>order\<close>,
  a list of positions in \<^verbatim>\<open>active_facets\<close>.  The result is the vector \<open>b\<close> and the calls of
  the kernel.
\<close>

definition assemble_vector_loop ::
  "'g::zero contact \<Rightarrow> locals \<Rightarrow> 'a list \<Rightarrow> ('a::{zero,plus}, 'g) contact_kernel_fn \<Rightarrow> 'a list \<Rightarrow>
   nat \<Rightarrow> 'a list \<Rightarrow> nat list \<Rightarrow> error + 'a list \<times> ('a, 'g) event list" where
  "assemble_vector_loop c l b kernel_fn coeffs cstride constants order =
     (let coordinate_dofs = replicate (3 * num_dofs_g c) 0;
          bes = replicate (unat (max_links_both l + 1)) (replicate (bs c * ndofs_cell l) 0) in
      bind (for_each (assemble_vector_facet c l kernel_fn coeffs cstride constants)
              order (b, coordinate_dofs, bes, []))
        (\<lambda>(b, coordinate_dofs, bes, events). Inr (b, events)))"

text \<open>The code takes the facets in the order of \<^verbatim>\<open>active_facets\<close> (line 272).\<close>

definition assemble_vector ::
  "'g::zero contact \<Rightarrow> 'a list \<Rightarrow> nat \<Rightarrow> ('a::{zero,plus}, 'g) contact_kernel_fn \<Rightarrow> 'a list \<Rightarrow> nat \<Rightarrow>
   'a list \<Rightarrow> error + 'a list \<times> ('a, 'g) event list" where
  "assemble_vector c b origin_meshtag kernel_fn coeffs cstride constants =
     bind (assembly_locals c origin_meshtag) (\<lambda>l.
     assemble_vector_loop c l b kernel_fn coeffs cstride constants
       [0..<length (active_facets l)])"

section \<open>Notions used in the statements\<close>

text \<open>
  \<open>zeroed lo hi Aes Aes'\<close>: the block set \<open>Aes'\<close> is \<open>Aes\<close> with exactly the blocks
  \<open>lo\<close> to \<open>hi\<close> filled with zeros.
\<close>

definition zeroed :: "nat \<Rightarrow> nat \<Rightarrow> ('a::zero) list list \<Rightarrow> 'a list list \<Rightarrow> bool" where
  "zeroed lo hi Aes Aes' \<longleftrightarrow>
     length Aes' = length Aes \<and>
     (\<forall>k<length Aes. Aes' ! k =
        (if lo \<le> k \<and> k \<le> hi then replicate (length (Aes ! k)) 0 else Aes ! k))"

text \<open>
  The arguments that the two loop bodies give to the kernel for the facet at position
  \<open>i\<close>, as a function of the values that vary.
\<close>

definition kernel_args_of ::
  "nat \<Rightarrow> 'a list \<Rightarrow> nat \<Rightarrow> 'a list \<Rightarrow> 'a list list \<Rightarrow> 'g list \<Rightarrow> nat \<Rightarrow> nat \<Rightarrow> ('a, 'g) kernel_args" where
  "kernel_args_of i coeffs cstride constants blocks coordinate_dofs local_index num_linked_cells =
     \<lparr> k_blocks = blocks, k_coeffs = drop (i * cstride) coeffs,
       k_constants = constants, k_coordinate_dofs = coordinate_dofs,
       k_local_index = local_index, k_perm = 0,
       k_num_linked_cells = num_linked_cells \<rparr>"

text \<open>The events that are calls of \<^verbatim>\<open>mat_set\<close>; a block of zeros.\<close>

fun is_Mat_set :: "('a, 'g) event \<Rightarrow> bool" where
  "is_Mat_set (Mat_set rows cols block) = True"
| "is_Mat_set (Kernel args) = False"

definition zero_block :: "('a::zero) list \<Rightarrow> bool" where
  "zero_block block = list_all (\<lambda>x. x = 0) block"

text \<open>
  The LinkedCellSet of the facet at position \<open>i\<close> of surface \<open>s\<close>: what
  \<open>compute_linked_cells\<close> returns for the candidates of the facet and the opposite
  submesh, as both assemblers call it (lines 175 to 178 and 196, 260 to 263 and 285).
\<close>

definition linked_cell_set :: "'g contact \<Rightarrow> nat \<Rightarrow> nat \<Rightarrow> error + nat list" where
  "linked_cell_set c s i =
     bind (at2 (facet_maps c) s) (\<lambda>m.
     bind (at2 (opposites c) s) (\<lambda>opp.
     bind (at2 (submeshes c) opp) (\<lambda>sm.
     bind (links m i) (\<lambda>candidates.
     compute_linked_cells candidates (facet_map sm) (parent_cells sm)))))"

text \<open>
  The calls that \<open>assemble_matrix\<close> makes for the facet at position \<open>i\<close> of surface
  \<open>s\<close>: one call of the kernel, with the neutral permutation and the blocks \<open>0\<close> to
  \<open>3 * numLinked\<close> zero, one call of \<^verbatim>\<open>mat_set\<close> on the dofs of the cell of the facet,
  and three more calls a linked cell.
\<close>

definition matrix_facet_events ::
  "'g contact \<Rightarrow> nat \<Rightarrow> nat \<Rightarrow> ('a::zero, 'g) event list \<Rightarrow> bool" where
  "matrix_facet_events c s i events \<longleftrightarrow>
     (\<exists>args block calls linked facets dmap_cell.
        events = Kernel args # Mat_set dmap_cell dmap_cell block
                   # map (\<lambda>(rows, cols, block). Mat_set rows cols block) calls
        \<and> length calls = 3 * length linked
        \<and> linked_cell_set c s i = Inr linked
        \<and> at2 (cell_facet_pairs c) s = Inr facets
        \<and> i < length facets
        \<and> links (cell_dofs c) (fst (facets ! i)) = Inr dmap_cell
        \<and> k_num_linked_cells args = length linked
        \<and> k_local_index args = snd (facets ! i)
        \<and> k_perm args = 0
        \<and> 3 * length linked < length (k_blocks args)
        \<and> list_all zero_block (take (3 * length linked + 1) (k_blocks args)))"

text \<open>The arguments of the calls of the kernel, in the order of the calls.\<close>

fun kernel_calls :: "('a, 'g) event list \<Rightarrow> ('a, 'g) kernel_args list" where
  "kernel_calls [] = []"
| "kernel_calls (Kernel args # events) = args # kernel_calls events"
| "kernel_calls (Mat_set rows cols block # events) = kernel_calls events"

text \<open>
  The entries that couple the facet at position \<open>i\<close> of surface \<open>s\<close> to its linked
  cells: every pair of a dof of the cell of the facet and a dof of a cell of its
  LinkedCellSet, in both orders.
\<close>

definition coupling_entries ::
  "'g contact \<Rightarrow> adjacency_list \<Rightarrow> nat \<Rightarrow> nat \<Rightarrow> sparsity_pattern" where
  "coupling_entries c dofmap s i =
     (case (at2 (cell_facet_pairs c) s, linked_cell_set c s i) of
        (Inr facets, Inr linked) \<Rightarrow>
          (\<Union>l\<in>set linked.
             set (dofmap ! fst (facets ! i)) \<times> set (dofmap ! l)
             \<union> set (dofmap ! l) \<times> set (dofmap ! fst (facets ! i)))
      | _ \<Rightarrow> {})"

text \<open>
  Two arrays of the same length agree outside the index set \<open>S\<close>.
\<close>

definition agree :: "nat set \<Rightarrow> 'a list \<Rightarrow> 'a list \<Rightarrow> bool" where
  "agree S xs ys \<longleftrightarrow> length xs = length ys \<and> (\<forall>p<length xs. p \<notin> S \<longrightarrow> xs ! p = ys ! p)"

text \<open>
  The indices \<open>bs * dof + k\<close> with \<open>k < bs\<close> of the dofs of a cell; the cells of the facet
  at position \<open>i\<close> of surface \<open>s\<close>, its own first and then those of its LinkedCellSet; the
  indices of the dofs of these cells; and the indices of all facets of the surface.
\<close>

definition block_indices :: "nat \<Rightarrow> nat list \<Rightarrow> nat set" where
  "block_indices block_size dofs =
     (\<Union>dof\<in>set dofs. (\<lambda>k. block_size * dof + k) ` {0..<block_size})"

definition facet_cells :: "'g contact \<Rightarrow> nat \<Rightarrow> nat \<Rightarrow> nat list" where
  "facet_cells c s i =
     (case (at2 (cell_facet_pairs c) s, linked_cell_set c s i) of
        (Inr facets, Inr linked) \<Rightarrow> fst (facets ! i) # linked
      | _ \<Rightarrow> [])"

definition facet_indices :: "'g contact \<Rightarrow> nat \<Rightarrow> nat \<Rightarrow> nat set" where
  "facet_indices c s i =
     (\<Union>cell\<in>set (facet_cells c s i). block_indices (bs c) (cell_dofs c ! cell))"

definition assembled_indices :: "'g contact \<Rightarrow> nat \<Rightarrow> nat set" where
  "assembled_indices c s =
     (case at2 (cell_facet_pairs c) s of
        Inr facets \<Rightarrow> (\<Union>i\<in>{0..<length facets}. facet_indices c s i)
      | Inl e \<Rightarrow> {})"





text \<open>
  The contract of the kernel (sections 3 and 4.3 of the specification).  It writes into the
  blocks it is given, so the number of blocks and their lengths stay.  What it writes into
  the blocks \<open>0\<close> to \<open>numLinked\<close> does not depend on the blocks beyond: there the block set
  holds what an earlier facet left.
\<close>

definition kernel_shape :: "('a, 'g) contact_kernel_fn \<Rightarrow> bool" where
  "kernel_shape kernel_fn \<longleftrightarrow> (\<forall>args. map length (kernel_fn args) = map length (k_blocks args))"

definition kernel_local :: "('a, 'g) contact_kernel_fn \<Rightarrow> bool" where
  "kernel_local kernel_fn \<longleftrightarrow>
     (\<forall>args blocks'.
        take (k_num_linked_cells args + 1) blocks' = take (k_num_linked_cells args + 1) (k_blocks args)
        \<longrightarrow> take (k_num_linked_cells args + 1) (kernel_fn (args\<lparr>k_blocks := blocks'\<rparr>))
            = take (k_num_linked_cells args + 1) (kernel_fn args))"







section \<open>An example\<close>

text \<open>
  Three triangles on five nodes in the plane, two dofs a node of the function space
  (\<open>bs = 2\<close>).  Surface \<open>0\<close> has two facets, of the cells \<open>0\<close> and \<open>1\<close>; surface \<open>1\<close>
  has one facet, of cell \<open>2\<close>.  The first facet of surface \<open>0\<close> is linked, at both
  quadrature points, to the facet of surface \<open>1\<close>; the second has no link.  The facet of
  surface \<open>1\<close> is linked to both facets of surface \<open>0\<close>.
\<close>

definition example_contact :: "int contact" where
  "example_contact =
     \<lparr> gdim = 2,
       x_dofmap = [[0, 1, 2], [1, 2, 3], [2, 3, 4]],
       x_g = [0, 0, 0,  1, 0, 0,  0, 1, 0,  1, 1, 0,  2, 1, 0],
       num_dofs_g = 3,
       cell_dofs = [[0, 1, 2], [1, 2, 3], [4, 5, 6]],
       bs = 2,
       cell_facet_pairs = ([(0, 1), (1, 0)], [(2, 2)]),
       submeshes = (\<lparr>facet_map = [[0, 1], [1, 0]], parent_cells = [0, 1]\<rparr>,
                    \<lparr>facet_map = [[0, 2]], parent_cells = [2]\<rparr>),
       facet_maps = ([[0, 0], []], [[0, 1]]),
       opposites = (1, 0),
       max_links = (1, 2),
       qp_ref_facet = [[[0], [1]]] \<rparr>"

text \<open>A kernel that adds one to every entry of every block it is given.\<close>

definition example_kernel :: "(int, int) contact_kernel_fn" where
  "example_kernel args = map (map (\<lambda>x. x + 1)) (k_blocks args)"

text \<open>The locals of the assemblers for surface \<open>0\<close> of the example.\<close>

definition example_locals :: locals where
  "example_locals =
     \<lparr> ndofs_cell = 3, max_links_both = 2, active_facets = [(0, 1), (1, 0)],
       map_of_origin = [[0, 0], []], facet_map_of_opposite = [[0, 2]],
       parent_cells_of_opposite = [2] \<rparr>"

text \<open>A form on the function space of the example whose own pattern is empty.\<close>

definition example_form :: form where
  "example_form = \<lparr> create_sparsity_pattern = {}, function_spaces = [cell_dofs example_contact] \<rparr>"

text \<open>
  A kernel that breaks the contract: it writes into block \<open>0\<close> what it finds in block
  \<open>1\<close>, whatever the number of linked cells, and ones into block \<open>1\<close>.
\<close>

definition stale_kernel :: "(int, int) contact_kernel_fn" where
  "stale_kernel args =
     (k_blocks args)[0 := map (\<lambda>x. hd (k_blocks args ! 1)) (k_blocks args ! 0),
                     1 := map (\<lambda>x. 1) (k_blocks args ! 1)]"

section \<open>Scalars that round\<close>

text \<open>
  \<^verbatim>\<open>PetscScalar\<close> is \<^verbatim>\<open>double\<close> in the default configuration of PETSc: a binary64
  number, with a significand of 53 bits.  \<open>D n\<close> is the binary64 number whose value is the
  integer \<open>n\<close>.  The sum of two of them is their exact sum rounded to the nearest number
  of 53 significant bits, a tie going to the even significand.  The magnitudes used below
  are far from \<open>2 ^ 1024\<close>, where a sum becomes infinite.
\<close>

function bit_length :: "int \<Rightarrow> nat" where
  "bit_length n = (if n \<le> 0 then 0 else Suc (bit_length (n div 2)))"
  by pat_completeness auto

termination bit_length
  by (relation "measure nat") auto

declare bit_length.simps [simp del]

definition round_to_nearest_even :: "int \<Rightarrow> int" where
  "round_to_nearest_even m =
     (let e = bit_length \<bar>m\<bar> - 53; q = \<bar>m\<bar> div 2 ^ e; r = \<bar>m\<bar> mod 2 ^ e in
      sgn m * ((if 2 ^ e < 2 * r \<or> (2 * r = 2 ^ e \<and> odd q) then q + 1 else q) * 2 ^ e))"

datatype double = D int

instantiation double :: "{zero, plus}"
begin

definition zero_double :: double where
  "zero_double = D 0"

fun plus_double :: "double \<Rightarrow> double \<Rightarrow> double" where
  "plus_double (D x) (D y) = D (round_to_nearest_even (x + y))"

instance ..

end

text \<open>
  Three triangles around the node \<open>0\<close>, one dof a node (\<open>bs = 1\<close>).  Surface \<open>0\<close> has one
  facet of each cell, none of them linked to a cell; surface \<open>1\<close> is empty.
\<close>

definition fan_contact :: "int contact" where
  "fan_contact =
     \<lparr> gdim = 2,
       x_dofmap = [[0, 1, 2], [0, 2, 3], [0, 3, 4]],
       x_g = [0, 0, 0,  1, 0, 0,  0, 1, 0,  -1, 0, 0,  0, -1, 0],
       num_dofs_g = 3,
       cell_dofs = [[0, 1, 2], [0, 2, 3], [0, 3, 4]],
       bs = 1,
       cell_facet_pairs = ([(0, 0), (1, 0), (2, 0)], []),
       submeshes = (\<lparr>facet_map = [[0, 0], [1, 0], [2, 0]], parent_cells = [0, 1, 2]\<rparr>,
                    \<lparr>facet_map = [], parent_cells = []\<rparr>),
       facet_maps = ([[], [], []], []),
       opposites = (1, 0),
       max_links = (0, 0),
       qp_ref_facet = [[[0]]] \<rparr>"

definition fan_locals :: locals where
  "fan_locals =
     \<lparr> ndofs_cell = 3, max_links_both = 0, active_facets = [(0, 0), (1, 0), (2, 0)],
       map_of_origin = [[], [], []], facet_map_of_opposite = [],
       parent_cells_of_opposite = [] \<rparr>"



text \<open>
  A kernel that makes block \<open>0\<close> one entry longer and writes the length it found into
  entry \<open>1\<close>; a kernel that writes slot \<open>7\<close> of the coordinate buffer, the second
  coordinate of the third node, into entry \<open>1\<close> of block \<open>0\<close>; the fan with a second
  cell of two geometry nodes.
\<close>

definition resizing_kernel :: "(int, int) contact_kernel_fn" where
  "resizing_kernel args =
     (k_blocks args)[0 := (k_blocks args ! 0)[1 := int (length (k_blocks args ! 0))] @ [0]]"

definition coordinate_kernel :: "(int, int) contact_kernel_fn" where
  "coordinate_kernel args =
     (k_blocks args)[0 := (k_blocks args ! 0)[1 := k_coordinate_dofs args ! 7]]"

definition short_cell_contact :: "int contact" where
  "short_cell_contact = fan_contact\<lparr>x_dofmap := [[0, 1, 2], [0, 2], [0, 3, 4]]\<rparr>"

section \<open>Properties\<close>

subsection \<open>Errors, loops\<close>

lemma bind_Inr [simp]: "bind (Inr x) f = f x"
  by (simp add: bind_def)

lemma bind_Inl [simp]: "bind (Inl e) f = Inl e"
  by (simp add: bind_def)

lemma bind_eq_Inr: "bind m f = Inr y \<longleftrightarrow> (\<exists>x. m = Inr x \<and> f x = Inr y)"
  by (cases m) simp_all

lemma at_eq_Inr: "at xs i = Inr x \<longleftrightarrow> i < length xs \<and> x = xs ! i"
  by (auto simp: at_def)

lemma put_eq_Inr: "put xs i v = Inr ys \<longleftrightarrow> i < length xs \<and> ys = xs[i := v]"
  by (auto simp: put_def)

lemma transform_eq_Inr:
  "transform f xs = Inr ys \<longleftrightarrow> length ys = length xs \<and> (\<forall>i<length xs. f (xs ! i) = Inr (ys ! i))"
proof (induction xs arbitrary: ys)
  case Nil
  then show ?case by auto
next
  case (Cons x xs)
  show ?case
  proof (cases ys)
    case Nil
    then show ?thesis by (auto simp: bind_eq_Inr)
  next
    case (Cons y ys')
    then show ?thesis
      by (auto simp: bind_eq_Inr Cons.IH nth_Cons split: nat.splits)
  qed
qed

lemma transform_map: "\<forall>x\<in>set xs. f x = Inr (g x) \<Longrightarrow> transform f xs = Inr (map g xs)"
  by (induction xs) simp_all

lemma transform_Inl: "x \<in> set xs \<Longrightarrow> f x = Inl e \<Longrightarrow> \<exists>e'. transform f xs = Inl e'"
proof (induction xs)
  case Nil
  then show ?case by simp
next
  case (Cons a xs)
  then show ?case
    by (cases "f a"; cases "transform f xs") auto
qed

subsection \<open>\<^verbatim>\<open>compute_linked_cells\<close>\<close>

lemma sorted_distinct_unique: "sorted xs \<Longrightarrow> distinct (remdups_adj (xs::nat list))"
  by (induction xs rule: remdups_adj.induct) auto

lemma strict_sorted_unique: "sorted_wrt (<) (erase_unique (radix_sort xs)) \<and> distinct (erase_unique (radix_sort xs))
  \<and> set (erase_unique (radix_sort xs)) = set xs"
  unfolding erase_unique_def radix_sort_def
  by (simp add: strict_sorted_iff sorted_remdups_adj sorted_distinct_unique)

lemma transform_Inl_elem: "transform f xs = Inl e \<Longrightarrow> \<exists>x\<in>set xs. f x = Inl e"
proof (induction xs)
  case Nil
  then show ?case by simp
next
  case (Cons a xs)
  then show ?case
    by (cases "f a"; cases "transform f xs") auto
qed

lemma transform_set: "transform f xs = Inr ys \<Longrightarrow> set ys = {y. \<exists>x\<in>set xs. f x = Inr y}"
  by (induction xs arbitrary: ys) (auto simp: bind_eq_Inr)

lemma replicate_unique: "0 < n \<Longrightarrow> erase_unique (radix_sort (replicate n p)) = [p]"
  unfolding erase_unique_def radix_sort_def
  by (simp add: sorted_sort_id remdups_adj_replicate)

lemma strict_sorted_list_of_set:
  "sorted_wrt (<) (ls::nat list) \<Longrightarrow> ls = sorted_list_of_set (set ls)"
  by (simp add: sorted_list_of_set.idem_if_sorted_distinct strict_sorted_iff)

lemma linked_cell_valid:
  "f < length s2p \<Longrightarrow> length (s2p ! f) = 2 \<Longrightarrow> s2p ! f ! 0 < length pc
   \<Longrightarrow> linked_cell s2p pc f = Inr (pc ! (s2p ! f ! 0))"
  by (simp add: linked_cell_def links_def at_def)

text \<open>
  Claim C1.  Whatever the candidate facets are, the cells that \<open>compute_linked_cells\<close>
  returns are strictly ascending, without duplicates, and are exactly the parent cells of
  the candidates.  When every candidate is a facet of the submesh, has a pair of two
  entries and a cell of the submesh as the first of them, the function returns, and what
  it returns is the ascending list of the set of the parent cells of the candidates.
  No candidate gives no cell.  When there are candidates and every one of them has the
  parent cell \<open>p\<close>, the result is the single cell \<open>p\<close>.
\<close>

theorem compute_linked_cells_strictly_ascending:
  "(compute_linked_cells fs s2p pc = Inr ls \<longrightarrow>
      sorted_wrt (<) ls \<and> distinct ls \<and> set ls = {p. \<exists>f\<in>set fs. linked_cell s2p pc f = Inr p})
   \<and> ((\<forall>f\<in>set fs. f < length s2p \<and> length (s2p ! f) = 2 \<and> s2p ! f ! 0 < length pc) \<longrightarrow>
        compute_linked_cells fs s2p pc
          = Inr (sorted_list_of_set ((\<lambda>f. pc ! (s2p ! f ! 0)) ` set fs)))
   \<and> compute_linked_cells [] s2p pc = Inr []
   \<and> (fs \<noteq> [] \<and> (\<forall>f\<in>set fs. linked_cell s2p pc f = Inr p) \<longrightarrow>
        compute_linked_cells fs s2p pc = Inr [p])"
proof (intro conjI impI)
  assume "compute_linked_cells fs s2p pc = Inr ls"
  then obtain xs where xs: "transform (linked_cell s2p pc) fs = Inr xs"
    and ls: "ls = erase_unique (radix_sort xs)"
    by (auto simp: compute_linked_cells_def bind_eq_Inr)
  show "sorted_wrt (<) ls" "distinct ls"
    using strict_sorted_unique [of xs] by (simp_all add: ls)
  show "set ls = {p. \<exists>f\<in>set fs. linked_cell s2p pc f = Inr p}"
    using strict_sorted_unique [of xs] transform_set [OF xs] by (simp add: ls)
next
  let ?g = "\<lambda>f. pc ! (s2p ! f ! 0)"
  assume v: "\<forall>f\<in>set fs. f < length s2p \<and> length (s2p ! f) = 2 \<and> s2p ! f ! 0 < length pc"
  then have "\<forall>f\<in>set fs. linked_cell s2p pc f = Inr (?g f)"
    by (simp add: linked_cell_valid)
  then have "transform (linked_cell s2p pc) fs = Inr (map ?g fs)"
    by (rule transform_map)
  then have r: "compute_linked_cells fs s2p pc = Inr (erase_unique (radix_sort (map ?g fs)))"
    by (simp add: compute_linked_cells_def)
  from strict_sorted_unique [of "map ?g fs"]
  have "sorted_wrt (<) (erase_unique (radix_sort (map ?g fs)))"
    and "set (erase_unique (radix_sort (map ?g fs))) = ?g ` set fs"
    by simp_all
  with strict_sorted_list_of_set [of "erase_unique (radix_sort (map ?g fs))"]
  have "erase_unique (radix_sort (map ?g fs)) = sorted_list_of_set (?g ` set fs)"
    by simp
  with r show "compute_linked_cells fs s2p pc = Inr (sorted_list_of_set (?g ` set fs))"
    by simp
next
  show "compute_linked_cells [] s2p pc = Inr []"
    by (simp add: compute_linked_cells_def erase_unique_def radix_sort_def)
next
  assume a: "fs \<noteq> [] \<and> (\<forall>f\<in>set fs. linked_cell s2p pc f = Inr p)"
  then have "transform (linked_cell s2p pc) fs = Inr (map (\<lambda>_. p) fs)"
    by (intro transform_map) simp
  moreover have "map (\<lambda>_. p) fs = replicate (length fs) p"
    by (simp add: map_replicate_const)
  ultimately show "compute_linked_cells fs s2p pc = Inr [p]"
    using a by (simp add: compute_linked_cells_def replicate_unique)
qed

text \<open>
  Three candidates, the facets \<open>0\<close>, \<open>1\<close> and \<open>0\<close> of a submesh of two cells.  With the
  parent cells \<open>7\<close> and \<open>9\<close> the candidates have the parent cells \<open>9\<close>, \<open>7\<close> and
  \<open>9\<close>, out of order and with a duplicate.  With the parent cell \<open>7\<close> for both cells of
  the submesh there is one parent cell.
\<close>

theorem compute_linked_cells_strictly_ascending_witness:
  "compute_linked_cells [0, 1, 0] [[1, 0], [0, 1]] [7, 9] = Inr [7, 9]
   \<and> linked_cell [[1, 0], [0, 1]] [7, 9] 0 = Inr 9
   \<and> linked_cell [[1, 0], [0, 1]] [7, 9] 1 = Inr 7
   \<and> sorted_wrt (<) [7, 9::nat] \<and> distinct [7, 9::nat]
   \<and> set [7, 9::nat] = {p. \<exists>f\<in>set [0, 1, 0]. linked_cell [[1, 0], [0, 1]] [7, 9] f = Inr p}
   \<and> [0, 1, 0::nat] \<noteq> []
   \<and> linked_cell [[1, 0], [0, 1]] [7, 7] 0 = Inr 7
   \<and> linked_cell [[1, 0], [0, 1]] [7, 7] 1 = Inr 7
   \<and> compute_linked_cells [0, 1, 0] [[1, 0], [0, 1]] [7, 7] = Inr [7]"
proof -
  have v: "\<forall>f\<in>set [0, 1, 0::nat]. f < length [[1, 0], [0, 1::nat]]
      \<and> length ([[1, 0], [0, 1::nat]] ! f) = 2 \<and> [[1, 0], [0, 1::nat]] ! f ! 0 < length [7, 9::nat]"
    by simp
  have s: "sorted_list_of_set ((\<lambda>f. [7, 9::nat] ! ([[1, 0], [0, 1::nat]] ! f ! 0)) ` set [0, 1, 0::nat])
      = [7, 9]"
  proof -
    have "(\<lambda>f. [7, 9::nat] ! ([[1, 0], [0, 1::nat]] ! f ! 0)) ` set [0, 1, 0::nat] = set [7, 9]"
      by auto
    moreover have "sorted_list_of_set (set [7, 9::nat]) = [7, 9]"
      using strict_sorted_list_of_set [of "[7, 9]"] by simp
    ultimately show ?thesis by simp
  qed
  have l: "linked_cell [[1, 0], [0, 1]] [7, 9] 0 = Inr 9 \<and> linked_cell [[1, 0], [0, 1]] [7, 9] 1 = Inr 7"
    by (simp add: linked_cell_def links_def at_def)
  from compute_linked_cells_strictly_ascending
    [of "[0, 1, 0]" "[[1, 0], [0, 1]]" "[7, 9]" "[7, 9]" 7] v
  have "compute_linked_cells [0, 1, 0] [[1, 0], [0, 1]] [7, 9]
      = Inr (sorted_list_of_set ((\<lambda>f. [7, 9::nat] ! ([[1, 0], [0, 1::nat]] ! f ! 0)) ` set [0, 1, 0::nat]))"
    by blast
  then have r: "compute_linked_cells [0, 1, 0] [[1, 0], [0, 1]] [7, 9] = Inr [7, 9]"
    unfolding s .
  from compute_linked_cells_strictly_ascending
    [of "[0, 1, 0]" "[[1, 0], [0, 1]]" "[7, 9]" "[7, 9]" 7] r
  have o: "sorted_wrt (<) [7, 9::nat] \<and> distinct [7, 9::nat]
      \<and> set [7, 9::nat] = {p. \<exists>f\<in>set [0, 1, 0]. linked_cell [[1, 0], [0, 1]] [7, 9] f = Inr p}"
    by blast
  have h: "[0, 1, 0::nat] \<noteq> []
      \<and> (\<forall>f\<in>set [0, 1, 0::nat]. linked_cell [[1, 0], [0, 1]] [7, 7] f = Inr 7)"
    by (simp add: linked_cell_def links_def at_def)
  from compute_linked_cells_strictly_ascending
    [of "[0, 1, 0]" "[[1, 0], [0, 1]]" "[7, 7]" "[7]" 7] h
  have r2: "compute_linked_cells [0, 1, 0] [[1, 0], [0, 1]] [7, 7] = Inr [7]"
    by blast
  from r l o h r2 show ?thesis by simp
qed

lemma linked_cell_cases:
  "linked_cell s2p pc f =
    (if f < length s2p then
       (if length (s2p ! f) \<noteq> 2 then Inl AssertionFailure
        else if s2p ! f ! 0 < length pc then Inr (pc ! (s2p ! f ! 0)) else Inl OutOfBounds)
     else Inl OutOfBounds)"
  by (simp add: linked_cell_def links_def at_def)

text \<open>
  Claim C9.  The assertion of \<open>compute_linked_cells\<close> asks that the (cell, facet) pair of
  each candidate facet has two entries.  When every candidate of the submesh has such a
  pair, the assertion does not fail.  When some candidate of the submesh has a pair of
  another length, the function does not return: it ends in an error.  When moreover every
  index is inside its container, that error is the failed assertion.
\<close>

theorem compute_linked_cells_assertion:
  "((\<forall>f\<in>set fs. f < length s2p \<longrightarrow> length (s2p ! f) = 2) \<longrightarrow>
       compute_linked_cells fs s2p pc \<noteq> Inl AssertionFailure)
   \<and> ((\<exists>f\<in>set fs. f < length s2p \<and> length (s2p ! f) \<noteq> 2) \<longrightarrow>
       (\<exists>e. compute_linked_cells fs s2p pc = Inl e))
   \<and> ((\<exists>f\<in>set fs. length (s2p ! f) \<noteq> 2) \<and>
      (\<forall>f\<in>set fs. f < length s2p \<and> (\<forall>q\<in>set (s2p ! f). q < length pc)) \<longrightarrow>
       compute_linked_cells fs s2p pc = Inl AssertionFailure)"
proof (intro conjI impI)
  assume pre: "\<forall>f\<in>set fs. f < length s2p \<longrightarrow> length (s2p ! f) = 2"
  show "compute_linked_cells fs s2p pc \<noteq> Inl AssertionFailure"
  proof
    assume "compute_linked_cells fs s2p pc = Inl AssertionFailure"
    then have "transform (linked_cell s2p pc) fs = Inl AssertionFailure"
      by (cases "transform (linked_cell s2p pc) fs") (simp_all add: compute_linked_cells_def)
    from transform_Inl_elem [of "linked_cell s2p pc" fs, OF this]
    obtain f where "f \<in> set fs" "linked_cell s2p pc f = Inl AssertionFailure" ..
    with pre show False
      by (auto simp: linked_cell_cases split: if_splits)
  qed
next
  assume "\<exists>f\<in>set fs. f < length s2p \<and> length (s2p ! f) \<noteq> 2"
  then obtain f where f: "f \<in> set fs" "f < length s2p" "length (s2p ! f) \<noteq> 2"
    by blast
  then have "linked_cell s2p pc f = Inl AssertionFailure"
    by (simp add: linked_cell_cases)
  from transform_Inl [of f fs "linked_cell s2p pc", OF f(1) this] obtain e where "transform (linked_cell s2p pc) fs = Inl e" ..
  then show "\<exists>e. compute_linked_cells fs s2p pc = Inl e"
    by (simp add: compute_linked_cells_def)
next
  assume a: "(\<exists>f\<in>set fs. length (s2p ! f) \<noteq> 2) \<and>
      (\<forall>f\<in>set fs. f < length s2p \<and> (\<forall>q\<in>set (s2p ! f). q < length pc))"
  then obtain f where f: "f \<in> set fs" "f < length s2p" "length (s2p ! f) \<noteq> 2"
    by blast
  then have "linked_cell s2p pc f = Inl AssertionFailure"
    by (simp add: linked_cell_cases)
  from transform_Inl [of f fs "linked_cell s2p pc", OF f(1) this] obtain e where e: "transform (linked_cell s2p pc) fs = Inl e" ..
  from transform_Inl_elem [of "linked_cell s2p pc" fs, OF e] obtain g where g: "g \<in> set fs" "linked_cell s2p pc g = Inl e" ..
  have "e = AssertionFailure"
  proof (cases "length (s2p ! g) = 2")
    case True
    then have "s2p ! g ! 0 \<in> set (s2p ! g)" by simp
    with a g True show ?thesis
      by (auto simp: linked_cell_cases split: if_splits)
  next
    case False
    with a g show ?thesis
      by (auto simp: linked_cell_cases split: if_splits)
  qed
  with e show "compute_linked_cells fs s2p pc = Inl AssertionFailure"
    by (simp add: compute_linked_cells_def)
qed

text \<open>
  A submesh of two facets: with the pairs \<open>[1, 0]\<close> and \<open>[0, 1]\<close> the call returns, with
  the pair \<open>[0, 1, 0]\<close> for facet \<open>1\<close> it ends in the failed assertion.
\<close>

theorem compute_linked_cells_assertion_witness:
  "length ([[1, 0], [0, 1::nat]] ! 0) = 2 \<and> length ([[1, 0], [0, 1::nat]] ! 1) = 2
   \<and> compute_linked_cells [0, 1] [[1, 0], [0, 1]] [7, 7] \<noteq> Inl AssertionFailure
   \<and> length ([[1, 0], [0, 1, 0::nat]] ! 1) \<noteq> 2
   \<and> (\<exists>e. compute_linked_cells [0, 1] [[1, 0], [0, 1, 0]] [7, 7] = Inl e)
   \<and> compute_linked_cells [0, 1] [[1, 0], [0, 1, 0]] [7, 7] = Inl AssertionFailure"
proof -
  have ok: "\<forall>f\<in>set [0, 1::nat]. f < length [[1, 0], [0, 1::nat]] \<longrightarrow>
      length ([[1, 0], [0, 1::nat]] ! f) = 2"
    by simp
  have bad: "\<exists>f\<in>set [0, 1::nat]. f < length [[1, 0], [0, 1, 0::nat]]
      \<and> length ([[1, 0], [0, 1, 0::nat]] ! f) \<noteq> 2"
    by simp
  have bad': "\<exists>f\<in>set [0, 1::nat]. length ([[1, 0], [0, 1, 0::nat]] ! f) \<noteq> 2"
    by simp
  have inside: "\<forall>f\<in>set [0, 1::nat]. f < length [[1, 0], [0, 1, 0::nat]]
      \<and> (\<forall>q\<in>set ([[1, 0], [0, 1, 0::nat]] ! f). q < length [7, 7::nat])"
    by simp
  from compute_linked_cells_assertion [of "[0, 1]" "[[1, 0], [0, 1]]" "[7, 7]"] ok
  have 1: "compute_linked_cells [0, 1] [[1, 0], [0, 1]] [7, 7] \<noteq> Inl AssertionFailure"
    by blast
  from compute_linked_cells_assertion [of "[0, 1]" "[[1, 0], [0, 1, 0]]" "[7, 7]"] bad' inside
  have 2: "compute_linked_cells [0, 1] [[1, 0], [0, 1, 0]] [7, 7] = Inl AssertionFailure"
    by blast
  from compute_linked_cells_assertion [of "[0, 1]" "[[1, 0], [0, 1, 0]]" "[7, 7]"] bad
  have 3: "\<exists>e. compute_linked_cells [0, 1] [[1, 0], [0, 1, 0]] [7, 7] = Inl e"
    by blast
  from 1 2 3 show ?thesis by simp
qed

subsection \<open>\<^verbatim>\<open>coefficients_size\<close>\<close>

lemma max_element_max: "max_element a = max (fst a) (snd a)"
  by (auto simp: max_element_def max_def)

lemma coefficients_size_of_nat:
  "cell_dofs c \<noteq> [] \<Longrightarrow> qp_ref_facet c \<noteq> [] \<Longrightarrow>
   coefficients_size c =
     Inr (of_nat (size_formula (numQuadPoints c) (gdim c) (dofsPerCell c) (bs c) (maxLinksGlobal c)))"
  by (simp add: coefficients_size_def at_def size_formula_def max_element_max
      numQuadPoints_def dofsPerCell_def maxLinksGlobal_def Let_def)

lemma coefficients_size_Inr:
  "coefficients_size c = Inr r \<Longrightarrow> cell_dofs c \<noteq> [] \<and> qp_ref_facet c \<noteq> []"
  by (auto simp: coefficients_size_def at_def Let_def bind_eq_Inr split: if_splits)

lemma unat_of_nat_64: "n < 2 ^ 64 \<Longrightarrow> unat (of_nat n :: 64 word) = n"
  by (simp add: unat_of_nat)

lemma of_nat_less_64: "a < b \<Longrightarrow> b < 2 ^ 64 \<Longrightarrow> (of_nat a :: 64 word) < of_nat b"
  by (simp add: word_less_nat_alt unat_of_nat_64)

text \<open>
  Claim C3.  When cell \<open>0\<close> and the first quadrature table exist, \<open>coefficients_size\<close>
  returns \<open>3 + numQuadPoints * (2 * gdim + dofsPerCell * blockSize * maxLinksGlobal
  + blockSize) + dofsPerCell * blockSize\<close>, computed in \<^verbatim>\<open>std::size_t\<close>, where
  \<open>maxLinksGlobal\<close> is the larger of the two link maxima: as a number, the value of the
  formula modulo \<open>2 ^ 64\<close>.  For \<open>numQuadPoints = 4\<close>, \<open>gdim = 2\<close>, \<open>dofsPerCell = 3\<close>,
  \<open>blockSize = 2\<close> and \<open>maxLinksGlobal = 2\<close> it returns \<open>81\<close>.
\<close>

theorem coefficients_size_formula:
  "(cell_dofs c \<noteq> [] \<and> qp_ref_facet c \<noteq> [] \<longrightarrow>
      (\<exists>r. coefficients_size c = Inr r
         \<and> r = 3 + of_nat (numQuadPoints c)
                  * (2 * of_nat (gdim c)
                     + of_nat (dofsPerCell c) * of_nat (bs c)
                       * max (fst (max_links c)) (snd (max_links c))
                     + of_nat (bs c))
                + of_nat (dofsPerCell c) * of_nat (bs c)
         \<and> unat r = size_formula (numQuadPoints c) (gdim c) (dofsPerCell c) (bs c)
                      (maxLinksGlobal c) mod 2 ^ 64))
   \<and> (max m0 m1 = 2 \<longrightarrow> coefficients_size (size_params 4 2 3 2 m0 m1) = Inr 81)
   \<and> size_formula 4 2 3 2 2 = 81"
proof (intro conjI impI)
  assume ne: "cell_dofs c \<noteq> [] \<and> qp_ref_facet c \<noteq> []"
  let ?n = "size_formula (numQuadPoints c) (gdim c) (dofsPerCell c) (bs c) (maxLinksGlobal c)"
  have r: "coefficients_size c = Inr (of_nat ?n)"
    using ne by (simp add: coefficients_size_of_nat)
  have w: "(of_nat ?n :: 64 word) = 3 + of_nat (numQuadPoints c)
                  * (2 * of_nat (gdim c)
                     + of_nat (dofsPerCell c) * of_nat (bs c)
                       * max (fst (max_links c)) (snd (max_links c))
                     + of_nat (bs c))
                + of_nat (dofsPerCell c) * of_nat (bs c)"
    by (simp add: size_formula_def maxLinksGlobal_def)
  have u: "unat (of_nat ?n :: 64 word) = ?n mod 2 ^ 64"
    by (simp add: unat_of_nat)
  show "\<exists>r. coefficients_size c = Inr r
         \<and> r = 3 + of_nat (numQuadPoints c)
                  * (2 * of_nat (gdim c)
                     + of_nat (dofsPerCell c) * of_nat (bs c)
                       * max (fst (max_links c)) (snd (max_links c))
                     + of_nat (bs c))
                + of_nat (dofsPerCell c) * of_nat (bs c)
         \<and> unat r = ?n mod 2 ^ 64"
    using r w u by simp
next
  assume m: "max m0 m1 = 2"
  have "coefficients_size (size_params 4 2 3 2 m0 m1)
      = Inr (of_nat (size_formula 4 2 3 2 (unat (max m0 m1))))"
    by (simp add: coefficients_size_of_nat size_params_def numQuadPoints_def dofsPerCell_def
        maxLinksGlobal_def)
  then show "coefficients_size (size_params 4 2 3 2 m0 m1) = Inr 81"
    by (simp add: m size_formula_def)
next
  show "size_formula 4 2 3 2 2 = 81"
    by (simp add: size_formula_def)
qed

text \<open>The example of the specification, with the link maxima \<open>1\<close> and \<open>2\<close>.\<close>

theorem coefficients_size_formula_witness:
  "cell_dofs (size_params 4 2 3 2 1 2) \<noteq> [] \<and> qp_ref_facet (size_params 4 2 3 2 1 2) \<noteq> []
   \<and> max (1 :: 64 word) 2 = 2
   \<and> coefficients_size (size_params 4 2 3 2 1 2) = Inr 81
   \<and> (\<exists>r. coefficients_size (size_params 4 2 3 2 1 2) = Inr r \<and> unat r = 81)"
proof -
  have ne: "cell_dofs (size_params 4 2 3 2 1 2) \<noteq> [] \<and> qp_ref_facet (size_params 4 2 3 2 1 2) \<noteq> []"
    by (simp add: size_params_def)
  have m: "max (1 :: 64 word) 2 = 2" by simp
  have n: "size_formula (numQuadPoints (size_params 4 2 3 2 1 2)) (gdim (size_params 4 2 3 2 1 2))
      (dofsPerCell (size_params 4 2 3 2 1 2)) (bs (size_params 4 2 3 2 1 2))
      (maxLinksGlobal (size_params 4 2 3 2 1 2)) mod 2 ^ 64 = 81"
    by (simp add: size_params_def size_formula_def numQuadPoints_def dofsPerCell_def
        maxLinksGlobal_def)
  from coefficients_size_formula [of "size_params 4 2 3 2 1 2" 1 2] m
  have 1: "coefficients_size (size_params 4 2 3 2 1 2) = Inr 81" by blast
  from coefficients_size_formula [of "size_params 4 2 3 2 1 2" 1 2] ne
  obtain r where "coefficients_size (size_params 4 2 3 2 1 2) = Inr r"
    and "unat r = size_formula (numQuadPoints (size_params 4 2 3 2 1 2))
      (gdim (size_params 4 2 3 2 1 2)) (dofsPerCell (size_params 4 2 3 2 1 2))
      (bs (size_params 4 2 3 2 1 2)) (maxLinksGlobal (size_params 4 2 3 2 1 2)) mod 2 ^ 64"
    by blast
  with n have 2: "\<exists>r. coefficients_size (size_params 4 2 3 2 1 2) = Inr r \<and> unat r = 81"
    by auto
  from ne m 1 2 show ?thesis by blast
qed

text \<open>
  Claim C7 as it is written does not hold: without quadrature points the size does not
  depend on \<open>gdim\<close>.  With \<open>dofsPerCell = blockSize = maxLinksGlobal = 1\<close> the size is \<open>4\<close>
  for \<open>gdim = 1\<close> and for \<open>gdim = 2\<close>.
\<close>

theorem coefficients_size_not_increasing:
  "coefficients_size (size_params 0 1 1 1 1 1) = Inr 4
   \<and> coefficients_size (size_params 0 2 1 1 1 1) = Inr 4
   \<and> \<not> (4 :: 64 word) < 4"
  by (simp add: coefficients_size_def size_params_def at_def max_element_def)

lemma size_formula_numQuadPoints:
  "q < q' \<Longrightarrow> 0 < g \<or> 0 < b \<Longrightarrow> size_formula q g d b m < size_formula q' g d b m"
  by (auto simp: size_formula_def)

lemma size_formula_gdim:
  "g < g' \<Longrightarrow> 0 < q \<Longrightarrow> size_formula q g d b m < size_formula q g' d b m"
  by (simp add: size_formula_def)

lemma size_formula_dofsPerCell:
  assumes "d < d'" "0 < b"
  shows "size_formula q g d b m < size_formula q g d' b m"
proof -
  have eq: "size_formula q g x b m = (3 + q * (2 * g + b)) + x * (b * (q * m + 1))" for x
    by (simp add: size_formula_def algebra_simps)
  show ?thesis unfolding eq using assms by simp
qed

lemma size_formula_blockSize:
  assumes "b < b'" "0 < q \<or> 0 < d"
  shows "size_formula q g d b m < size_formula q g d b' m"
proof -
  have eq: "size_formula q g d x m = (3 + 2 * q * g) + x * (q * d * m + q + d)" for x
    by (simp add: size_formula_def algebra_simps)
  show ?thesis unfolding eq using assms by auto
qed

lemma size_formula_maxLinksGlobal:
  "m < m' \<Longrightarrow> 0 < q \<Longrightarrow> 0 < d \<Longrightarrow> 0 < b \<Longrightarrow>
   size_formula q g d b m < size_formula q g d b m'"
  by (simp add: size_formula_def)

text \<open>
  Claim C7, amended.  Let two \<^verbatim>\<open>Contact\<close> objects differ in one of the five parameters,
  the second having the larger value, and let the formula for the second not exceed
  \<^verbatim>\<open>std::size_t\<close>.  Then the second size is the larger one, provided that
  \<^item> for \<open>numQuadPoints\<close>: \<open>gdim\<close> or \<open>blockSize\<close> is positive;
  \<^item> for \<open>gdim\<close>: \<open>numQuadPoints\<close> is positive;
  \<^item> for \<open>dofsPerCell\<close>: \<open>blockSize\<close> is positive;
  \<^item> for \<open>blockSize\<close>: \<open>numQuadPoints\<close> or \<open>dofsPerCell\<close> is positive;
  \<^item> for \<open>maxLinksGlobal\<close>: \<open>numQuadPoints\<close>, \<open>dofsPerCell\<close> and \<open>blockSize\<close> are positive.
\<close>

theorem coefficients_size_increasing:
  assumes r: "coefficients_size c = Inr r" and r': "coefficients_size c' = Inr r'"
    and no_overflow:
      "size_formula (numQuadPoints c') (gdim c') (dofsPerCell c') (bs c') (maxLinksGlobal c') < 2 ^ 64"
  shows "(numQuadPoints c < numQuadPoints c' \<and> gdim c = gdim c' \<and> dofsPerCell c = dofsPerCell c'
            \<and> bs c = bs c' \<and> maxLinksGlobal c = maxLinksGlobal c' \<and> (0 < gdim c \<or> 0 < bs c)
          \<longrightarrow> r < r')
    \<and> (numQuadPoints c = numQuadPoints c' \<and> gdim c < gdim c' \<and> dofsPerCell c = dofsPerCell c'
            \<and> bs c = bs c' \<and> maxLinksGlobal c = maxLinksGlobal c' \<and> 0 < numQuadPoints c
          \<longrightarrow> r < r')
    \<and> (numQuadPoints c = numQuadPoints c' \<and> gdim c = gdim c' \<and> dofsPerCell c < dofsPerCell c'
            \<and> bs c = bs c' \<and> maxLinksGlobal c = maxLinksGlobal c' \<and> 0 < bs c
          \<longrightarrow> r < r')
    \<and> (numQuadPoints c = numQuadPoints c' \<and> gdim c = gdim c' \<and> dofsPerCell c = dofsPerCell c'
            \<and> bs c < bs c' \<and> maxLinksGlobal c = maxLinksGlobal c'
            \<and> (0 < numQuadPoints c \<or> 0 < dofsPerCell c)
          \<longrightarrow> r < r')
    \<and> (numQuadPoints c = numQuadPoints c' \<and> gdim c = gdim c' \<and> dofsPerCell c = dofsPerCell c'
            \<and> bs c = bs c' \<and> maxLinksGlobal c < maxLinksGlobal c'
            \<and> 0 < numQuadPoints c \<and> 0 < dofsPerCell c \<and> 0 < bs c
          \<longrightarrow> r < r')"
proof -
  let ?n = "size_formula (numQuadPoints c) (gdim c) (dofsPerCell c) (bs c) (maxLinksGlobal c)"
  let ?n' = "size_formula (numQuadPoints c') (gdim c') (dofsPerCell c') (bs c') (maxLinksGlobal c')"
  have eq: "r = of_nat ?n" "r' = of_nat ?n'"
    using r r' coefficients_size_Inr [OF r] coefficients_size_Inr [OF r']
    by (simp_all add: coefficients_size_of_nat)
  have less: "?n < ?n' \<Longrightarrow> r < r'"
    unfolding eq using no_overflow by (simp add: of_nat_less_64)
  show ?thesis
  proof (intro conjI impI)
    assume "numQuadPoints c < numQuadPoints c' \<and> gdim c = gdim c' \<and> dofsPerCell c = dofsPerCell c'
            \<and> bs c = bs c' \<and> maxLinksGlobal c = maxLinksGlobal c' \<and> (0 < gdim c \<or> 0 < bs c)"
    then have "?n < ?n'"
      by (auto intro: size_formula_numQuadPoints size_formula_gdim size_formula_dofsPerCell
          size_formula_blockSize size_formula_maxLinksGlobal)
    then show "r < r'" by (rule less)
  next
    assume "numQuadPoints c = numQuadPoints c' \<and> gdim c < gdim c' \<and> dofsPerCell c = dofsPerCell c'
            \<and> bs c = bs c' \<and> maxLinksGlobal c = maxLinksGlobal c' \<and> 0 < numQuadPoints c"
    then have "?n < ?n'"
      by (auto intro: size_formula_numQuadPoints size_formula_gdim size_formula_dofsPerCell
          size_formula_blockSize size_formula_maxLinksGlobal)
    then show "r < r'" by (rule less)
  next
    assume "numQuadPoints c = numQuadPoints c' \<and> gdim c = gdim c' \<and> dofsPerCell c < dofsPerCell c'
            \<and> bs c = bs c' \<and> maxLinksGlobal c = maxLinksGlobal c' \<and> 0 < bs c"
    then have "?n < ?n'"
      by (auto intro: size_formula_numQuadPoints size_formula_gdim size_formula_dofsPerCell
          size_formula_blockSize size_formula_maxLinksGlobal)
    then show "r < r'" by (rule less)
  next
    assume "numQuadPoints c = numQuadPoints c' \<and> gdim c = gdim c' \<and> dofsPerCell c = dofsPerCell c'
            \<and> bs c < bs c' \<and> maxLinksGlobal c = maxLinksGlobal c'
            \<and> (0 < numQuadPoints c \<or> 0 < dofsPerCell c)"
    then have "?n < ?n'"
      by (auto intro: size_formula_numQuadPoints size_formula_gdim size_formula_dofsPerCell
          size_formula_blockSize size_formula_maxLinksGlobal)
    then show "r < r'" by (rule less)
  next
    assume "numQuadPoints c = numQuadPoints c' \<and> gdim c = gdim c' \<and> dofsPerCell c = dofsPerCell c'
            \<and> bs c = bs c' \<and> maxLinksGlobal c < maxLinksGlobal c'
            \<and> 0 < numQuadPoints c \<and> 0 < dofsPerCell c \<and> 0 < bs c"
    then have "?n < ?n'"
      by (auto intro: size_formula_numQuadPoints size_formula_gdim size_formula_dofsPerCell
          size_formula_blockSize size_formula_maxLinksGlobal)
    then show "r < r'" by (rule less)
  qed
qed

text \<open>
  From \<open>gdim = 2\<close> to \<open>gdim = 3\<close> with four quadrature points, three dofs a cell, block
  size two and at most two links, the example of the specification: from \<open>81\<close> to \<open>89\<close>.
\<close>

theorem coefficients_size_increasing_witness:
  "coefficients_size (size_params 4 2 3 2 1 2) = Inr 81
   \<and> coefficients_size (size_params 4 3 3 2 1 2) = Inr 89
   \<and> size_formula (numQuadPoints (size_params 4 3 3 2 1 2)) (gdim (size_params 4 3 3 2 1 2))
        (dofsPerCell (size_params 4 3 3 2 1 2)) (bs (size_params 4 3 3 2 1 2))
        (maxLinksGlobal (size_params 4 3 3 2 1 2)) < 2 ^ 64
   \<and> gdim (size_params 4 2 3 2 1 2) < gdim (size_params 4 3 3 2 1 2)
   \<and> 0 < numQuadPoints (size_params 4 2 3 2 1 2)
   \<and> (81 :: 64 word) < 89"
proof -
  have r: "coefficients_size (size_params 4 2 3 2 1 2) = Inr 81"
    by (simp add: coefficients_size_def size_params_def at_def max_element_def)
  have r': "coefficients_size (size_params 4 3 3 2 1 2) = Inr 89"
    by (simp add: coefficients_size_def size_params_def at_def max_element_def)
  have n: "size_formula (numQuadPoints (size_params 4 3 3 2 1 2)) (gdim (size_params 4 3 3 2 1 2))
        (dofsPerCell (size_params 4 3 3 2 1 2)) (bs (size_params 4 3 3 2 1 2))
        (maxLinksGlobal (size_params 4 3 3 2 1 2)) < 2 ^ 64"
    by (simp add: size_params_def size_formula_def numQuadPoints_def dofsPerCell_def
        maxLinksGlobal_def)
  have p: "numQuadPoints (size_params 4 2 3 2 1 2) = numQuadPoints (size_params 4 3 3 2 1 2)
      \<and> gdim (size_params 4 2 3 2 1 2) < gdim (size_params 4 3 3 2 1 2)
      \<and> dofsPerCell (size_params 4 2 3 2 1 2) = dofsPerCell (size_params 4 3 3 2 1 2)
      \<and> bs (size_params 4 2 3 2 1 2) = bs (size_params 4 3 3 2 1 2)
      \<and> maxLinksGlobal (size_params 4 2 3 2 1 2) = maxLinksGlobal (size_params 4 3 3 2 1 2)
      \<and> 0 < numQuadPoints (size_params 4 2 3 2 1 2)"
    by (simp add: size_params_def numQuadPoints_def dofsPerCell_def maxLinksGlobal_def)
  from coefficients_size_increasing [OF r r' n] p have "(81 :: 64 word) < 89"
    by blast
  with r r' n p show ?thesis by blast
qed

subsection \<open>The calls made by the assemblers\<close>

lemma for_each_append:
  "for_each body (xs @ ys) s = bind (for_each body xs s) (for_each body ys)"
  by (induction xs arbitrary: s) (simp_all add: bind_def split: sum.splits)

lemma for_each_invariant:
  assumes "for_each body xs s = Inr s'" and "P s"
    and "\<And>x t t'. x \<in> set xs \<Longrightarrow> P t \<Longrightarrow> body x t = Inr t' \<Longrightarrow> P t'"
  shows "P s'"
  using assms
proof (induction xs arbitrary: s)
  case Nil
  then show ?case by simp
next
  case (Cons x xs)
  from Cons.prems(1) obtain t where t: "body x s = Inr t" and r: "for_each body xs t = Inr s'"
    by (auto simp: bind_eq_Inr)
  have Pt: "P t" using Cons.prems(3) [of x s t] Cons.prems(2) t by simp
  show ?case
  proof (rule Cons.IH [OF r Pt])
    fix y u u' assume "y \<in> set xs" "P u" "body y u = Inr u'"
    then show "P u'" using Cons.prems(3) [of y u u'] by simp
  qed
qed

lemma fill_zero_eq_Inr:
  "fill_zero Aes k = Inr Aes' \<longleftrightarrow>
     k < length Aes \<and> Aes' = Aes[k := replicate (length (Aes ! k)) 0]"
  by (auto simp: fill_zero_def bind_eq_Inr at_eq_Inr put_eq_Inr)

lemma zero_Aes_loop:
  "for_each (\<lambda>j Aes.
         bind (fill_zero Aes (3 * j + 1)) (\<lambda>Aes.
         bind (fill_zero Aes (3 * j + 2)) (\<lambda>Aes.
         fill_zero Aes (3 * j + 3))))
       [0..<n] Aes = Inr Aes' \<Longrightarrow>
   (0 < n \<longrightarrow> 3 * n < length Aes) \<and> zeroed 1 (3 * n) Aes Aes'"
proof (induction n arbitrary: Aes')
  case 0
  then show ?case by (simp add: zeroed_def)
next
  case (Suc n)
  from Suc.prems obtain A where A: "for_each (\<lambda>j Aes.
         bind (fill_zero Aes (3 * j + 1)) (\<lambda>Aes.
         bind (fill_zero Aes (3 * j + 2)) (\<lambda>Aes.
         fill_zero Aes (3 * j + 3)))) [0..<n] Aes = Inr A"
    and s: "bind (fill_zero A (3 * n + 1)) (\<lambda>Aes.
         bind (fill_zero Aes (3 * n + 2)) (\<lambda>Aes.
         fill_zero Aes (3 * n + 3))) = Inr Aes'"
    by (auto simp: for_each_append bind_eq_Inr)
  from Suc.IH [OF A] have z: "zeroed 1 (3 * n) Aes A" by simp
  then have len: "length A = length Aes" by (simp add: zeroed_def)
  from s have lt: "3 * n + 3 < length A"
    and Aes': "Aes' = A[3 * n + 1 := replicate (length (A ! (3 * n + 1))) 0,
        3 * n + 2 := replicate (length (A ! (3 * n + 2))) 0,
        3 * n + 3 := replicate (length (A ! (3 * n + 3))) 0]"
    by (auto simp: bind_eq_Inr fill_zero_eq_Inr)
  have "zeroed 1 (3 * Suc n) Aes Aes'"
    unfolding zeroed_def
  proof (intro conjI allI impI)
    show "length Aes' = length Aes" by (simp add: Aes' len)
  next
    fix k assume k: "k < length Aes"
    from z k have Ak: "A ! k = (if 1 \<le> k \<and> k \<le> 3 * n then replicate (length (Aes ! k)) 0 else Aes ! k)"
      by (simp add: zeroed_def)
    from z lt len have same: "A ! (3 * n + 1) = Aes ! (3 * n + 1)"
      "A ! (3 * n + 2) = Aes ! (3 * n + 2)" "A ! (3 * n + 3) = Aes ! (3 * n + 3)"
      by (simp_all add: zeroed_def)
    show "Aes' ! k = (if 1 \<le> k \<and> k \<le> 3 * Suc n then replicate (length (Aes ! k)) 0 else Aes ! k)"
      using k lt len Ak same by (auto simp: Aes' nth_list_update)
  qed
  with lt len show ?case by simp
qed

lemma zero_Aes_Inr:
  assumes "zero_Aes n Aes = Inr Aes'"
  shows "3 * n < length Aes \<and> zeroed 0 (3 * n) Aes Aes'"
proof -
  from assms obtain A where A: "fill_zero Aes 0 = Inr A" and l: "for_each (\<lambda>j Aes.
         bind (fill_zero Aes (3 * j + 1)) (\<lambda>Aes.
         bind (fill_zero Aes (3 * j + 2)) (\<lambda>Aes.
         fill_zero Aes (3 * j + 3)))) [0..<n] A = Inr Aes'"
    by (auto simp: zero_Aes_def bind_eq_Inr)
  from A have ne: "0 < length Aes" and A_def: "A = Aes[0 := replicate (length (Aes ! 0)) 0]"
    by (simp_all add: fill_zero_eq_Inr)
  from zero_Aes_loop [OF l] have b: "0 < n \<longrightarrow> 3 * n < length A" and z: "zeroed 1 (3 * n) A Aes'"
    by simp_all
  have len: "length A = length Aes" by (simp add: A_def)
  have "zeroed 0 (3 * n) Aes Aes'"
    unfolding zeroed_def
  proof (intro conjI allI impI)
    show "length Aes' = length Aes" using z len by (simp add: zeroed_def)
  next
    fix k assume k: "k < length Aes"
    with z len have "Aes' ! k = (if 1 \<le> k \<and> k \<le> 3 * n then replicate (length (A ! k)) 0 else A ! k)"
      by (simp add: zeroed_def)
    then show "Aes' ! k = (if 0 \<le> k \<and> k \<le> 3 * n then replicate (length (Aes ! k)) 0 else Aes ! k)"
      using k by (cases k) (auto simp: A_def)
  qed
  moreover have "3 * n < length Aes" using b ne len by (cases n) simp_all
  ultimately show ?thesis by simp
qed

lemma zero_Aes_Nil:
  "Aes \<noteq> [] \<Longrightarrow> zero_Aes 0 Aes = Inr (Aes[0 := replicate (length (Aes ! 0)) 0])"
  by (simp add: zero_Aes_def fill_zero_def at_def put_def)

lemma mat_set_linked_loop:
  "for_each (mat_set_linked c dmap linked Aes) js events = Inr events' \<Longrightarrow>
   \<exists>calls. events' = events @ map (\<lambda>(r, c, v). Mat_set r c v) calls \<and> length calls = 3 * length js"
proof (induction js arbitrary: events)
  case Nil
  then show ?case by simp
next
  case (Cons j js)
  from Cons.prems obtain ev where ev: "mat_set_linked c dmap linked Aes j events = Inr ev"
    and r: "for_each (mat_set_linked c dmap linked Aes) js ev = Inr events'"
    by (auto simp: bind_eq_Inr)
  from ev obtain r1 c1 v1 r2 c2 v2 r3 c3 v3 where
    ev_def: "ev = events @ map (\<lambda>(r, c, v). Mat_set r c v) [(r1, c1, v1), (r2, c2, v2), (r3, c3, v3)]"
    by (auto simp: mat_set_linked_def bind_eq_Inr)
  from Cons.IH [OF r] obtain calls where
    "events' = ev @ map (\<lambda>(r, c, v). Mat_set r c v) calls" "length calls = 3 * length js"
    by blast
  then have "events' = events @ map (\<lambda>(r, c, v). Mat_set r c v) ([(r1, c1, v1), (r2, c2, v2), (r3, c3, v3)] @ calls)
      \<and> length ([(r1, c1, v1), (r2, c2, v2), (r3, c3, v3)] @ calls) = 3 * length (j # js)"
    by (simp add: ev_def)
  then show ?case by blast
qed

lemma assemble_matrix_facet_Inr:
  assumes "assemble_matrix_facet c l K coeffs cstride constants i (coords, Aes, events)
      = Inr (coords', Aes', events')"
  shows "\<exists>cell li linked Aes0 dmap.
      facet_geometry c l i coords = Inr (cell, li, coords', linked)
      \<and> zero_Aes (length linked) Aes = Inr Aes0
      \<and> Aes' = K (kernel_args_of i coeffs cstride constants Aes0 coords' li (length linked))
      \<and> links (cell_dofs c) cell = Inr dmap
      \<and> Aes' \<noteq> []
      \<and> for_each (mat_set_linked c dmap linked Aes') [0..<length linked]
           (events @ [Kernel (kernel_args_of i coeffs cstride constants Aes0 coords' li (length linked)),
                      Mat_set dmap dmap (Aes' ! 0)]) = Inr events'"
  using assms
  by (auto simp: assemble_matrix_facet_def bind_eq_Inr Let_def kernel_args_of_def at_eq_Inr
      split: prod.splits)

lemma assemble_matrix_Inr:
  assumes "assemble_matrix c origin K coeffs cstride constants = Inr events"
  shows "\<exists>l coords' Aes'. assembly_locals c origin = Inr l
     \<and> for_each (assemble_matrix_facet c l K coeffs cstride constants)
         [0..<length (active_facets l)]
         (replicate (3 * num_dofs_g c) 0,
          replicate (unat (3 * max_links_both l + 1))
            (replicate (bs c * ndofs_cell l * bs c * ndofs_cell l) 0), [])
       = Inr (coords', Aes', events)"
  using assms
  by (auto simp: assemble_matrix_def bind_eq_Inr Let_def split: prod.splits)

lemma list_all_Mat_set: "list_all is_Mat_set (map (\<lambda>(r, c, v). Mat_set r c v) calls)"
  by (induction calls) auto

lemma zeroed_zero_blocks:
  assumes "zeroed 0 n Aes Aes'" "n < length Aes"
  shows "list_all zero_block (take (n + 1) Aes')"
proof -
  have "\<forall>k<length (take (n + 1) Aes'). zero_block (take (n + 1) Aes' ! k)"
    using assms by (auto simp: zeroed_def zero_block_def list_all_iff)
  then show ?thesis by (simp add: list_all_length)
qed

lemma bind_Inr_right [simp]: "bind m Inr = m"
  by (cases m) simp_all

lemma for_each_single [simp]: "for_each body [x] = body x"
proof
  fix s
  have "for_each body [] = Inr" by (rule ext) simp
  then show "for_each body [x] s = body x s" by simp
qed

lemma for_each_upt_Suc:
  "for_each body [0..<Suc n] s = bind (for_each body [0..<n] s) (body n)"
  by (simp add: for_each_append)

lemma assembly_locals_Inr:
  assumes "assembly_locals c s = Inr l"
  shows "at2 (cell_facet_pairs c) s = Inr (active_facets l)"
    and "linked_cell_set c s i =
      bind (links (map_of_origin l) i) (\<lambda>candidates.
        compute_linked_cells candidates (facet_map_of_opposite l) (parent_cells_of_opposite l))"
    and "cell_dofs c \<noteq> []" and "ndofs_cell l = length (cell_dofs c ! 0)"
    and "max_links_both l = max (fst (max_links c)) (snd (max_links c))"
  using assms
  by (auto simp: assembly_locals_def linked_cell_set_def bind_eq_Inr at_eq_Inr)

lemma facet_geometry_Inr:
  assumes "facet_geometry c l i coords = Inr (cell, li, coords', linked)"
  shows "i < length (active_facets l)" and "active_facets l ! i = (cell, li)"
    and "\<exists>x_dofs. links (x_dofmap c) cell = Inr x_dofs
          \<and> gather_coordinates c x_dofs coords = Inr coords'"
    and "bind (links (map_of_origin l) i) (\<lambda>candidates.
        compute_linked_cells candidates (facet_map_of_opposite l) (parent_cells_of_opposite l))
        = Inr linked"
  using assms
  by (auto simp: facet_geometry_def bind_eq_Inr at_eq_Inr Let_def)

lemma assemble_matrix_facet_trace:
  assumes l: "assembly_locals c s = Inr l"
    and "assemble_matrix_facet c l K coeffs cstride constants i (coords, Aes, events)
      = Inr (coords', Aes', events')"
  shows "\<exists>evs. events' = events @ evs \<and> matrix_facet_events c s i evs"
proof -
  from assemble_matrix_facet_Inr [OF assms(2)] obtain cell li linked Aes0 dmap where
    g: "facet_geometry c l i coords = Inr (cell, li, coords', linked)"
    and z: "zero_Aes (length linked) Aes = Inr Aes0"
    and d: "links (cell_dofs c) cell = Inr dmap"
    and loop: "for_each (mat_set_linked c dmap linked Aes') [0..<length linked]
           (events @ [Kernel (kernel_args_of i coeffs cstride constants Aes0 coords' li (length linked)),
                      Mat_set dmap dmap (Aes' ! 0)]) = Inr events'"
    by blast
  let ?args = "kernel_args_of i coeffs cstride constants Aes0 coords' li (length linked)"
  from mat_set_linked_loop [OF loop] obtain calls where
    ev: "events' = (events @ [Kernel ?args, Mat_set dmap dmap (Aes' ! 0)])
        @ map (\<lambda>(r, c, v). Mat_set r c v) calls"
    and len: "length calls = 3 * length linked"
    by auto
  from zero_Aes_Inr [OF z]
  have lt: "3 * length linked < length Aes" and zd: "zeroed 0 (3 * length linked) Aes Aes0"
    by simp_all
  from zd have len0: "length Aes0 = length Aes" by (simp add: zeroed_def)
  from zeroed_zero_blocks [OF zd lt] have zb: "list_all zero_block (take (3 * length linked + 1) Aes0)" .
  from facet_geometry_Inr [OF g] assembly_locals_Inr(2) [OF l, of i]
  have lc: "linked_cell_set c s i = Inr linked" and i: "i < length (active_facets l)"
    and f: "active_facets l ! i = (cell, li)"
    by simp_all
  let ?evs = "Kernel ?args # Mat_set dmap dmap (Aes' ! 0) # map (\<lambda>(r, c, v). Mat_set r c v) calls"
  have "matrix_facet_events c s i ?evs"
    unfolding matrix_facet_events_def
    using len lc assembly_locals_Inr(1) [OF l] i f d lt zb len0
    by (intro exI [of _ ?args] exI [of _ "Aes' ! 0"] exI [of _ calls] exI [of _ linked]
        exI [of _ "active_facets l"] exI [of _ dmap])
       (simp add: kernel_args_of_def)
  moreover have "events' = events @ ?evs" by (simp add: ev)
  ultimately show ?thesis by blast
qed

lemma assemble_matrix_loop_trace:
  assumes l: "assembly_locals c s = Inr l"
  shows "for_each (assemble_matrix_facet c l K coeffs cstride constants) [0..<n] (coords, Aes, [])
      = Inr (coords', Aes', events) \<Longrightarrow>
    \<exists>per_facet. events = concat per_facet \<and> length per_facet = n
      \<and> (\<forall>i<n. matrix_facet_events c s i (per_facet ! i))"
proof (induction n arbitrary: coords' Aes' events)
  case 0
  then show ?case by simp
next
  case (Suc n)
  from Suc.prems obtain co A ev where
    r: "for_each (assemble_matrix_facet c l K coeffs cstride constants) [0..<n] (coords, Aes, [])
      = Inr (co, A, ev)"
    and b: "assemble_matrix_facet c l K coeffs cstride constants n (co, A, ev)
      = Inr (coords', Aes', events)"
    unfolding for_each_upt_Suc by (auto simp: bind_eq_Inr)
  from Suc.IH [OF r] obtain per_facet where p: "ev = concat per_facet" "length per_facet = n"
    "\<forall>i<n. matrix_facet_events c s i (per_facet ! i)"
    by blast
  from assemble_matrix_facet_trace [OF l b] obtain evs where
    e: "events = ev @ evs" "matrix_facet_events c s n evs"
    by blast
  have "events = concat (per_facet @ [evs]) \<and> length (per_facet @ [evs]) = Suc n
      \<and> (\<forall>i<Suc n. matrix_facet_events c s i ((per_facet @ [evs]) ! i))"
    using p e by (auto simp: nth_append less_Suc_eq)
  then show ?case by blast
qed

lemma assemble_matrix_trace:
  assumes "assemble_matrix c s K coeffs cstride constants = Inr events"
  shows "\<exists>facets per_facet. at2 (cell_facet_pairs c) s = Inr facets
      \<and> events = concat per_facet \<and> length per_facet = length facets
      \<and> (\<forall>i<length facets. matrix_facet_events c s i (per_facet ! i))"
proof -
  from assemble_matrix_Inr [OF assms] obtain l coords' Aes' where
    l: "assembly_locals c s = Inr l"
    and r: "for_each (assemble_matrix_facet c l K coeffs cstride constants)
         [0..<length (active_facets l)]
         (replicate (3 * num_dofs_g c) 0,
          replicate (unat (3 * max_links_both l + 1))
            (replicate (bs c * ndofs_cell l * bs c * ndofs_cell l) 0), [])
       = Inr (coords', Aes', events)"
    by blast
  from assemble_matrix_loop_trace [OF l r] assembly_locals_Inr(1) [OF l]
  show ?thesis by blast
qed

lemma kernel_calls_append: "kernel_calls (xs @ ys) = kernel_calls xs @ kernel_calls ys"
  by (induction xs rule: kernel_calls.induct) simp_all

lemma kernel_calls_Mat_sets: "list_all is_Mat_set events \<Longrightarrow> kernel_calls events = []"
  by (induction events rule: kernel_calls.induct) simp_all

lemma kernel_calls_concat: "kernel_calls (concat xss) = concat (map kernel_calls xss)"
  by (induction xss) (simp_all add: kernel_calls_append)

lemma kernel_calls_set: "args \<in> set (kernel_calls events) \<longleftrightarrow> Kernel args \<in> set events"
  by (induction events rule: kernel_calls.induct) auto

lemma matrix_facet_events_calls:
  assumes "matrix_facet_events c s i events"
  obtains args where "kernel_calls events = [args]" "k_perm args = 0"
    "3 * k_num_linked_cells args < length (k_blocks args)"
    "list_all zero_block (take (3 * k_num_linked_cells args + 1) (k_blocks args))"
    "\<exists>linked. linked_cell_set c s i = Inr linked \<and> k_num_linked_cells args = length linked"
proof -
  from assms obtain args block calls linked facets dmap_cell where
    e: "events = Kernel args # Mat_set dmap_cell dmap_cell block
                   # map (\<lambda>(rows, cols, block). Mat_set rows cols block) calls"
    and p: "linked_cell_set c s i = Inr linked" "k_num_linked_cells args = length linked"
      "k_perm args = 0" "3 * length linked < length (k_blocks args)"
      "list_all zero_block (take (3 * length linked + 1) (k_blocks args))"
    unfolding matrix_facet_events_def by blast
  have "kernel_calls events = [args]"
    by (simp add: e kernel_calls_Mat_sets list_all_Mat_set)
  with p that show thesis by simp
qed

lemma assemble_vector_facet_Inr:
  assumes "assemble_vector_facet c l K coeffs cstride constants i (b, coords, bes, events)
      = Inr (b', coords', bes', events')"
  shows "\<exists>cell li linked bes0.
      facet_geometry c l i coords = Inr (cell, li, coords', linked)
      \<and> zero_bes (length linked) bes = Inr bes0
      \<and> bes' = K (kernel_args_of i coeffs cstride constants bes0 coords' li (length linked))
      \<and> add_element_vector c (ndofs_cell l) cell linked bes' b = Inr b'
      \<and> events' = events
           @ [Kernel (kernel_args_of i coeffs cstride constants bes0 coords' li (length linked))]"
  using assms
  by (auto simp: assemble_vector_facet_def bind_eq_Inr Let_def kernel_args_of_def
      split: prod.splits)

lemma assemble_vector_loop_Inr:
  assumes "assemble_vector_loop c l b K coeffs cstride constants order = Inr (b', events)"
  shows "\<exists>coords' bes'.
      for_each (assemble_vector_facet c l K coeffs cstride constants) order
        (b, replicate (3 * num_dofs_g c) 0,
         replicate (unat (max_links_both l + 1)) (replicate (bs c * ndofs_cell l) 0), [])
      = Inr (b', coords', bes', events)"
  using assms
  by (auto simp: assemble_vector_loop_def bind_eq_Inr Let_def split: prod.splits)

lemma assemble_vector_Inr:
  assumes "assemble_vector c b s K coeffs cstride constants = Inr (b', events)"
  shows "\<exists>l. assembly_locals c s = Inr l
     \<and> assemble_vector_loop c l b K coeffs cstride constants [0..<length (active_facets l)]
         = Inr (b', events)"
  using assms by (auto simp: assemble_vector_def bind_eq_Inr)

lemma assemble_vector_loop_perm:
  "for_each (assemble_vector_facet c l K coeffs cstride constants) order (b, coords, bes, events)
      = Inr (b', coords', bes', events') \<Longrightarrow>
   map k_perm (kernel_calls events') = map k_perm (kernel_calls events) @ replicate (length order) 0"
proof (induction order arbitrary: b coords bes events)
  case Nil
  then show ?case by simp
next
  case (Cons i order)
  from Cons.prems obtain b1 co1 bes1 ev1 where
    s: "assemble_vector_facet c l K coeffs cstride constants i (b, coords, bes, events)
      = Inr (b1, co1, bes1, ev1)"
    and r: "for_each (assemble_vector_facet c l K coeffs cstride constants) order (b1, co1, bes1, ev1)
      = Inr (b', coords', bes', events')"
    by (auto simp: bind_eq_Inr)
  from assemble_vector_facet_Inr [OF s] obtain args where "ev1 = events @ [Kernel args]"
    "k_perm args = 0"
    by (auto simp: kernel_args_of_def)
  then have "map k_perm (kernel_calls ev1) = map k_perm (kernel_calls events) @ [0]"
    by (simp add: kernel_calls_append)
  with Cons.IH [OF r] show ?case
    by (simp add: replicate_app_Cons_same)
qed

lemma assemble_matrix_kernel_calls:
  assumes "assemble_matrix c s K coeffs cstride constants = Inr events"
  shows "\<exists>facets. at2 (cell_facet_pairs c) s = Inr facets
    \<and> length (kernel_calls events) = length facets
    \<and> (\<forall>i<length facets.
          k_perm (kernel_calls events ! i) = 0
        \<and> 3 * k_num_linked_cells (kernel_calls events ! i) < length (k_blocks (kernel_calls events ! i))
        \<and> list_all zero_block (take (3 * k_num_linked_cells (kernel_calls events ! i) + 1)
             (k_blocks (kernel_calls events ! i)))
        \<and> (\<exists>linked. linked_cell_set c s i = Inr linked
              \<and> k_num_linked_cells (kernel_calls events ! i) = length linked))"
proof -
  from assemble_matrix_trace [OF assms] obtain facets per_facet where
    f: "at2 (cell_facet_pairs c) s = Inr facets"
    and e: "events = concat per_facet" and n: "length per_facet = length facets"
    and m: "\<forall>i<length facets. matrix_facet_events c s i (per_facet ! i)"
    by blast
  have one: "\<forall>i<length per_facet. \<exists>args. kernel_calls (per_facet ! i) = [args]"
    using m n by (metis matrix_facet_events_calls)
  have k: "kernel_calls events = map (\<lambda>evs. hd (kernel_calls evs)) per_facet"
    unfolding e kernel_calls_concat using one
  proof (induction per_facet)
    case Nil
    then show ?case by simp
  next
    case (Cons evs per_facet)
    from Cons.prems have "\<exists>args. kernel_calls evs = [args]" by auto
    moreover from Cons.prems have "\<forall>i<length per_facet. \<exists>args. kernel_calls (per_facet ! i) = [args]"
      by auto
    ultimately show ?case using Cons.IH by auto
  qed
  have "\<forall>i<length facets.
          k_perm (kernel_calls events ! i) = 0
        \<and> 3 * k_num_linked_cells (kernel_calls events ! i) < length (k_blocks (kernel_calls events ! i))
        \<and> list_all zero_block (take (3 * k_num_linked_cells (kernel_calls events ! i) + 1)
             (k_blocks (kernel_calls events ! i)))
        \<and> (\<exists>linked. linked_cell_set c s i = Inr linked
              \<and> k_num_linked_cells (kernel_calls events ! i) = length linked)"
  proof (intro allI impI)
    fix i assume i: "i < length facets"
    with m have "matrix_facet_events c s i (per_facet ! i)" by simp
    then obtain args where a: "kernel_calls (per_facet ! i) = [args]" "k_perm args = 0"
      "3 * k_num_linked_cells args < length (k_blocks args)"
      "list_all zero_block (take (3 * k_num_linked_cells args + 1) (k_blocks args))"
      "\<exists>linked. linked_cell_set c s i = Inr linked \<and> k_num_linked_cells args = length linked"
      by (rule matrix_facet_events_calls)
    have "kernel_calls events ! i = args"
      using i n a(1) by (simp add: k)
    with a show "k_perm (kernel_calls events ! i) = 0
        \<and> 3 * k_num_linked_cells (kernel_calls events ! i) < length (k_blocks (kernel_calls events ! i))
        \<and> list_all zero_block (take (3 * k_num_linked_cells (kernel_calls events ! i) + 1)
             (k_blocks (kernel_calls events ! i)))
        \<and> (\<exists>linked. linked_cell_set c s i = Inr linked
              \<and> k_num_linked_cells (kernel_calls events ! i) = length linked)"
      by simp
  qed
  moreover have "length (kernel_calls events) = length facets"
    by (simp add: k n)
  ultimately show ?thesis using f by blast
qed

lemma example_locals: "assembly_locals example_contact 0 = Inr example_locals"
  by (simp add: assembly_locals_def example_contact_def example_locals_def at_def at2_def)

lemma matrix_facet_events_shape:
  assumes "matrix_facet_events c s i events" and "at2 (cell_facet_pairs c) s = Inr facets"
  shows "\<exists>args calls. events = Kernel args # calls \<and> list_all is_Mat_set calls
     \<and> (linked_cell_set c s i = Inr [] \<longrightarrow>
          k_num_linked_cells args = 0
          \<and> (\<exists>block. calls = [Mat_set (cell_dofs c ! fst (facets ! i))
                                   (cell_dofs c ! fst (facets ! i)) block]))"
proof -
  from assms(1) obtain args block calls linked facets' dmap_cell where
    e: "events = Kernel args # Mat_set dmap_cell dmap_cell block
                   # map (\<lambda>(rows, cols, block). Mat_set rows cols block) calls"
    and p: "length calls = 3 * length linked" "linked_cell_set c s i = Inr linked"
      "at2 (cell_facet_pairs c) s = Inr facets'"
      "links (cell_dofs c) (fst (facets' ! i)) = Inr dmap_cell"
      "k_num_linked_cells args = length linked"
    unfolding matrix_facet_events_def by blast
  from p(3) assms(2) have [simp]: "facets' = facets" by simp
  from p(4) have d: "dmap_cell = cell_dofs c ! fst (facets ! i)"
    by (simp add: links_def at_eq_Inr)
  let ?calls = "Mat_set dmap_cell dmap_cell block
                   # map (\<lambda>(rows, cols, block). Mat_set rows cols block) calls"
  have "events = Kernel args # ?calls" by (simp add: e)
  moreover have "list_all is_Mat_set ?calls"
    using list_all_Mat_set [of calls] by simp
  moreover have "linked_cell_set c s i = Inr [] \<longrightarrow>
          k_num_linked_cells args = 0
          \<and> (\<exists>block. ?calls = [Mat_set (cell_dofs c ! fst (facets ! i))
                                   (cell_dofs c ! fst (facets ! i)) block])"
    using p d by auto
  ultimately have "events = Kernel args # ?calls \<and> list_all is_Mat_set ?calls
     \<and> (linked_cell_set c s i = Inr [] \<longrightarrow>
          k_num_linked_cells args = 0
          \<and> (\<exists>block. ?calls = [Mat_set (cell_dofs c ! fst (facets ! i))
                                   (cell_dofs c ! fst (facets ! i)) block]))"
    by (intro conjI)
  then show ?thesis by (intro exI)
qed

text \<open>
  Claim C5.  For a facet without linked cells the loop body of \<open>assemble_matrix\<close> does
  not fail, provided the steps that every facet needs succeed (the geometry of the facet,
  the dofs of its cell, a block \<open>0\<close> before and after the kernel): it calls the kernel
  once, with zero linked cells, and then \<^verbatim>\<open>mat_set\<close> once, on the dofs of the cell of the
  facet for rows and columns and with block \<open>0\<close>.  In a run of \<open>assemble_matrix\<close> that
  returns, the calls are, facet by facet, one call of the kernel followed by calls of
  \<^verbatim>\<open>mat_set\<close>; for a facet whose LinkedCellSet is empty that is exactly one call of
  \<^verbatim>\<open>mat_set\<close>, for the block of the cell with itself.
\<close>

theorem assemble_matrix_no_linked_cells:
  fixes kernel_fn :: "('a::zero, 'g::zero) contact_kernel_fn"
  shows
  "(facet_geometry c l i coordinate_dofs = Inr (cell, local_index, coordinate_dofs', [])
      \<and> links (cell_dofs c) cell = Inr dmap_cell \<and> Aes \<noteq> []
      \<and> args = kernel_args_of i coeffs cstride constants
                 (Aes[0 := replicate (length (Aes ! 0)) 0]) coordinate_dofs' local_index 0
      \<and> kernel_fn args \<noteq> []
     \<longrightarrow> assemble_matrix_facet c l kernel_fn coeffs cstride constants i
           (coordinate_dofs, Aes, events)
         = Inr (coordinate_dofs', kernel_fn args,
                events @ [Kernel args, Mat_set dmap_cell dmap_cell (kernel_fn args ! 0)]))
   \<and> (assemble_matrix c s kernel_fn coeffs cstride constants = Inr trace \<longrightarrow>
        (\<exists>facets per_facet.
           at2 (cell_facet_pairs c) s = Inr facets
           \<and> trace = concat per_facet \<and> length per_facet = length facets
           \<and> (\<forall>i<length facets. \<exists>args calls.
                 per_facet ! i = Kernel args # calls \<and> list_all is_Mat_set calls
                 \<and> (linked_cell_set c s i = Inr [] \<longrightarrow>
                      k_num_linked_cells args = 0
                      \<and> (\<exists>block. calls = [Mat_set (cell_dofs c ! fst (facets ! i))
                                               (cell_dofs c ! fst (facets ! i)) block])))))"
proof (intro conjI impI)
  assume a: "facet_geometry c l i coordinate_dofs = Inr (cell, local_index, coordinate_dofs', [])
      \<and> links (cell_dofs c) cell = Inr dmap_cell \<and> Aes \<noteq> []
      \<and> args = kernel_args_of i coeffs cstride constants
                 (Aes[0 := replicate (length (Aes ! 0)) 0]) coordinate_dofs' local_index 0
      \<and> kernel_fn args \<noteq> []"
  then have g: "facet_geometry c l i coordinate_dofs
        = Inr (cell, local_index, coordinate_dofs', [])"
    and d: "links (cell_dofs c) cell = Inr dmap_cell"
    and ne: "Aes \<noteq> []"
    and args: "args = kernel_args_of i coeffs cstride constants
                 (Aes[0 := replicate (length (Aes ! 0)) 0]) coordinate_dofs' local_index 0"
    and out: "kernel_fn args \<noteq> []"
    by blast+
  from ne have z: "zero_Aes 0 Aes = Inr (Aes[0 := replicate (length (Aes ! 0)) 0])"
    by (rule zero_Aes_Nil)
  from out have k: "at (kernel_fn args) 0 = Inr (kernel_fn args ! 0)"
    by (simp add: at_def)
  have r: "\<lparr> k_blocks = Aes[0 := replicate (length (Aes ! 0)) 0],
          k_coeffs = drop (i * cstride) coeffs, k_constants = constants,
          k_coordinate_dofs = coordinate_dofs', k_local_index = local_index, k_perm = 0,
          k_num_linked_cells = 0 \<rparr> = args"
    unfolding args kernel_args_of_def ..
  show "assemble_matrix_facet c l kernel_fn coeffs cstride constants i
           (coordinate_dofs, Aes, events)
         = Inr (coordinate_dofs', kernel_fn args,
                events @ [Kernel args, Mat_set dmap_cell dmap_cell (kernel_fn args ! 0)])"
    by (simp add: assemble_matrix_facet_def Let_def g z r d k)
next
  assume "assemble_matrix c s kernel_fn coeffs cstride constants = Inr trace"
  from assemble_matrix_trace [OF this] obtain facets per_facet where
    f: "at2 (cell_facet_pairs c) s = Inr facets"
    and e: "trace = concat per_facet" "length per_facet = length facets"
    and m: "\<forall>i<length facets. matrix_facet_events c s i (per_facet ! i)"
    by blast
  have "\<forall>i<length facets. \<exists>args calls.
                 per_facet ! i = Kernel args # calls \<and> list_all is_Mat_set calls
                 \<and> (linked_cell_set c s i = Inr [] \<longrightarrow>
                      k_num_linked_cells args = 0
                      \<and> (\<exists>block. calls = [Mat_set (cell_dofs c ! fst (facets ! i))
                                               (cell_dofs c ! fst (facets ! i)) block]))"
  proof (intro allI impI)
    fix i assume "i < length facets"
    with m have "matrix_facet_events c s i (per_facet ! i)" by simp
    from matrix_facet_events_shape [OF this f]
    show "\<exists>args calls.
                 per_facet ! i = Kernel args # calls \<and> list_all is_Mat_set calls
                 \<and> (linked_cell_set c s i = Inr [] \<longrightarrow>
                      k_num_linked_cells args = 0
                      \<and> (\<exists>block. calls = [Mat_set (cell_dofs c ! fst (facets ! i))
                                               (cell_dofs c ! fst (facets ! i)) block]))" .
  qed
  with f e have "at2 (cell_facet_pairs c) s = Inr facets
           \<and> trace = concat per_facet \<and> length per_facet = length facets
           \<and> (\<forall>i<length facets. \<exists>args calls.
                 per_facet ! i = Kernel args # calls \<and> list_all is_Mat_set calls
                 \<and> (linked_cell_set c s i = Inr [] \<longrightarrow>
                      k_num_linked_cells args = 0
                      \<and> (\<exists>block. calls = [Mat_set (cell_dofs c ! fst (facets ! i))
                                               (cell_dofs c ! fst (facets ! i)) block])))"
    by simp
  then show "\<exists>facets per_facet.
           at2 (cell_facet_pairs c) s = Inr facets
           \<and> trace = concat per_facet \<and> length per_facet = length facets
           \<and> (\<forall>i<length facets. \<exists>args calls.
                 per_facet ! i = Kernel args # calls \<and> list_all is_Mat_set calls
                 \<and> (linked_cell_set c s i = Inr [] \<longrightarrow>
                      k_num_linked_cells args = 0
                      \<and> (\<exists>block. calls = [Mat_set (cell_dofs c ! fst (facets ! i))
                                               (cell_dofs c ! fst (facets ! i)) block])))"
    by (intro exI)
qed

text \<open>
  The second facet of surface \<open>0\<close> of the example has no linked cell: its body, started
  with blocks full of fives, and the run over both facets.
\<close>

theorem assemble_matrix_no_linked_cells_witness:
  "facet_geometry example_contact example_locals 1 (replicate 9 0)
     = Inr (1, 0, [1, 0, 0, 0, 1, 0, 1, 1, 0], [])
   \<and> links (cell_dofs example_contact) 1 = Inr [1, 2, 3]
   \<and> replicate 7 (replicate 36 (5::int)) \<noteq> []
   \<and> assemble_matrix_facet example_contact example_locals example_kernel [] 0 [] 1
        (replicate 9 0, replicate 7 (replicate 36 5), [])
      = Inr ([1, 0, 0, 0, 1, 0, 1, 1, 0],
             example_kernel (kernel_args_of 1 [] 0 []
               ((replicate 7 (replicate 36 5))[0 := replicate (length (replicate 7 (replicate 36 (5::int)) ! 0)) 0])
               [1, 0, 0, 0, 1, 0, 1, 1, 0] 0 0),
             [Kernel (kernel_args_of 1 [] 0 []
               ((replicate 7 (replicate 36 5))[0 := replicate (length (replicate 7 (replicate 36 (5::int)) ! 0)) 0])
               [1, 0, 0, 0, 1, 0, 1, 1, 0] 0 0),
              Mat_set [1, 2, 3] [1, 2, 3]
               (example_kernel (kernel_args_of 1 [] 0 []
                 ((replicate 7 (replicate 36 5))[0 := replicate (length (replicate 7 (replicate 36 (5::int)) ! 0)) 0])
                 [1, 0, 0, 0, 1, 0, 1, 1, 0] 0 0) ! 0)])
   \<and> linked_cell_set example_contact 0 1 = Inr []
   \<and> (\<exists>trace per_facet args block.
         assemble_matrix example_contact 0 example_kernel [] 0 [] = Inr trace
         \<and> trace = concat per_facet \<and> length per_facet = 2
         \<and> per_facet ! 1 = [Kernel args, Mat_set [1, 2, 3] [1, 2, 3] block]
         \<and> k_num_linked_cells args = 0)"
proof -
  let ?Aes = "replicate 7 (replicate 36 (5::int))"
  let ?args = "kernel_args_of 1 [] 0 []
               (?Aes[0 := replicate (length (?Aes ! 0)) 0]) [1, 0, 0, 0, 1, 0, 1, 1, 0] 0 0"
  have g: "facet_geometry example_contact example_locals 1 (replicate 9 0)
     = Inr (1, 0, [1, 0, 0, 0, 1, 0, 1, 1, 0], [])"
    by code_simp
  have d: "links (cell_dofs example_contact) 1 = Inr [1, 2, 3]"
    by code_simp
  have ne: "?Aes \<noteq> []" by simp
  have out: "example_kernel ?args \<noteq> []"
    by (simp add: example_kernel_def kernel_args_of_def)
  from assemble_matrix_no_linked_cells
    [of example_contact example_locals 1 "replicate 9 0" 1 0 "[1, 0, 0, 0, 1, 0, 1, 1, 0]"
       "[1, 2, 3]" ?Aes ?args "[]" 0 "[]" example_kernel "[]"]
    g d ne out
  have body: "assemble_matrix_facet example_contact example_locals example_kernel [] 0 [] 1
        (replicate 9 0, ?Aes, [])
      = Inr ([1, 0, 0, 0, 1, 0, 1, 1, 0], example_kernel ?args,
             [] @ [Kernel ?args, Mat_set [1, 2, 3] [1, 2, 3] (example_kernel ?args ! 0)])"
    by blast
  have l: "linked_cell_set example_contact 0 1 = Inr []"
    by code_simp
  have f: "at2 (cell_facet_pairs example_contact) 0 = Inr [(0, 1), (1, 0)]"
    by code_simp
  have "\<not> isl (assemble_matrix example_contact 0 example_kernel [] 0 [])"
    by code_simp
  then obtain trace where t: "assemble_matrix example_contact 0 example_kernel [] 0 [] = Inr trace"
    by (cases "assemble_matrix example_contact 0 example_kernel [] 0 []") auto
  from assemble_matrix_no_linked_cells
    [of example_contact _ _ _ _ _ _ _ _ _ _ _ _ example_kernel _ 0 trace] t
  obtain facets per_facet where
    p: "at2 (cell_facet_pairs example_contact) 0 = Inr facets"
      "trace = concat per_facet" "length per_facet = length facets"
      "\<forall>i<length facets. \<exists>args calls.
                 per_facet ! i = Kernel args # calls \<and> list_all is_Mat_set calls
                 \<and> (linked_cell_set example_contact 0 i = Inr [] \<longrightarrow>
                      k_num_linked_cells args = 0
                      \<and> (\<exists>block. calls = [Mat_set (cell_dofs example_contact ! fst (facets ! i))
                                               (cell_dofs example_contact ! fst (facets ! i)) block]))"
    by blast
  from p(1) f have facets: "facets = [(0, 1), (1, 0)]" by simp
  have cd: "cell_dofs example_contact ! fst (facets ! 1) = [1, 2, 3]"
    by (simp add: facets example_contact_def)
  have "1 < length facets" by (simp add: facets)
  from p(4) [rule_format, OF this] obtain args calls where
    a: "per_facet ! 1 = Kernel args # calls"
    and i: "linked_cell_set example_contact 0 1 = Inr [] \<longrightarrow>
                      k_num_linked_cells args = 0
                      \<and> (\<exists>block. calls = [Mat_set (cell_dofs example_contact ! fst (facets ! 1))
                                               (cell_dofs example_contact ! fst (facets ! 1)) block])"
    by blast
  from i l obtain block where n: "k_num_linked_cells args = 0"
    and "calls = [Mat_set (cell_dofs example_contact ! fst (facets ! 1))
                                               (cell_dofs example_contact ! fst (facets ! 1)) block]"
    by blast
  then have "calls = [Mat_set [1, 2, 3] [1, 2, 3] block]"
    unfolding cd by simp
  with a n have "per_facet ! 1 = [Kernel args, Mat_set [1, 2, 3] [1, 2, 3] block]"
    "k_num_linked_cells args = 0"
    by simp_all
  with t p(2,3) have run: "\<exists>trace per_facet args block.
         assemble_matrix example_contact 0 example_kernel [] 0 [] = Inr trace
         \<and> trace = concat per_facet \<and> length per_facet = 2
         \<and> per_facet ! 1 = [Kernel args, Mat_set [1, 2, 3] [1, 2, 3] block]
         \<and> k_num_linked_cells args = 0"
    unfolding facets by auto
  from g d ne body l run show ?thesis by simp
qed

text \<open>
  Claim C6.  When the loop body of \<open>assemble_matrix\<close> succeeds for a facet with
  \<open>numLinked\<close> linked cells, it has called the kernel once, and the block set given to the
  kernel is the block set left by the facet before with exactly the blocks \<open>0\<close> to
  \<open>3 * numLinked\<close> filled with zeros; these blocks exist.  In a run of
  \<open>assemble_matrix\<close> that returns there is one call of the kernel for each facet, in the
  order of the facets, and in the call for a facet the blocks \<open>0\<close> to \<open>3 * numLinked\<close>
  hold zeros only, where \<open>numLinked\<close> is the size of the LinkedCellSet of the facet.
\<close>

theorem assemble_matrix_zero_fill:
  fixes kernel_fn :: "('a::zero, 'g::zero) contact_kernel_fn"
  shows
  "(assemble_matrix_facet c l kernel_fn coeffs cstride constants i (coordinate_dofs, Aes, events)
      = Inr (coordinate_dofs', Aes', events') \<longrightarrow>
      (\<exists>args calls cell local_index linked.
         events' = events @ Kernel args # calls \<and> list_all is_Mat_set calls
         \<and> facet_geometry c l i coordinate_dofs = Inr (cell, local_index, coordinate_dofs', linked)
         \<and> k_num_linked_cells args = length linked
         \<and> 3 * length linked < length Aes
         \<and> zeroed 0 (3 * length linked) Aes (k_blocks args)))
   \<and> (assemble_matrix c s kernel_fn coeffs cstride constants = Inr trace \<longrightarrow>
        (\<exists>facets. at2 (cell_facet_pairs c) s = Inr facets
           \<and> length (kernel_calls trace) = length facets
           \<and> (\<forall>i<length facets. \<exists>linked.
                 linked_cell_set c s i = Inr linked
                 \<and> k_num_linked_cells (kernel_calls trace ! i) = length linked
                 \<and> 3 * length linked < length (k_blocks (kernel_calls trace ! i))
                 \<and> list_all zero_block
                      (take (3 * length linked + 1) (k_blocks (kernel_calls trace ! i))))))"
proof (intro conjI impI)
  assume "assemble_matrix_facet c l kernel_fn coeffs cstride constants i (coordinate_dofs, Aes, events)
      = Inr (coordinate_dofs', Aes', events')"
  from assemble_matrix_facet_Inr [OF this] obtain cell li linked Aes0 dmap where
    g: "facet_geometry c l i coordinate_dofs = Inr (cell, li, coordinate_dofs', linked)"
    and z: "zero_Aes (length linked) Aes = Inr Aes0"
    and loop: "for_each (mat_set_linked c dmap linked Aes') [0..<length linked]
           (events @ [Kernel (kernel_args_of i coeffs cstride constants Aes0 coordinate_dofs' li
                        (length linked)),
                      Mat_set dmap dmap (Aes' ! 0)]) = Inr events'"
    by blast
  let ?args = "kernel_args_of i coeffs cstride constants Aes0 coordinate_dofs' li (length linked)"
  from mat_set_linked_loop [OF loop] obtain calls where
    ev: "events' = (events @ [Kernel ?args, Mat_set dmap dmap (Aes' ! 0)])
        @ map (\<lambda>(r, c, v). Mat_set r c v) calls"
    by auto
  let ?calls = "Mat_set dmap dmap (Aes' ! 0) # map (\<lambda>(r, c, v). Mat_set r c v) calls"
  from zero_Aes_Inr [OF z]
  have lt: "3 * length linked < length Aes" and zd: "zeroed 0 (3 * length linked) Aes Aes0"
    by simp_all
  have "events' = events @ Kernel ?args # ?calls \<and> list_all is_Mat_set ?calls
         \<and> facet_geometry c l i coordinate_dofs = Inr (cell, li, coordinate_dofs', linked)
         \<and> k_num_linked_cells ?args = length linked
         \<and> 3 * length linked < length Aes
         \<and> zeroed 0 (3 * length linked) Aes (k_blocks ?args)"
    using ev g lt zd list_all_Mat_set [of calls] by (simp add: kernel_args_of_def)
  then show "\<exists>args calls cell local_index linked.
         events' = events @ Kernel args # calls \<and> list_all is_Mat_set calls
         \<and> facet_geometry c l i coordinate_dofs = Inr (cell, local_index, coordinate_dofs', linked)
         \<and> k_num_linked_cells args = length linked
         \<and> 3 * length linked < length Aes
         \<and> zeroed 0 (3 * length linked) Aes (k_blocks args)"
    by (intro exI)
next
  assume "assemble_matrix c s kernel_fn coeffs cstride constants = Inr trace"
  from assemble_matrix_kernel_calls [OF this] obtain facets where
    f: "at2 (cell_facet_pairs c) s = Inr facets"
    and n: "length (kernel_calls trace) = length facets"
    and k: "\<forall>i<length facets.
          k_perm (kernel_calls trace ! i) = 0
        \<and> 3 * k_num_linked_cells (kernel_calls trace ! i) < length (k_blocks (kernel_calls trace ! i))
        \<and> list_all zero_block (take (3 * k_num_linked_cells (kernel_calls trace ! i) + 1)
             (k_blocks (kernel_calls trace ! i)))
        \<and> (\<exists>linked. linked_cell_set c s i = Inr linked
              \<and> k_num_linked_cells (kernel_calls trace ! i) = length linked)"
    by blast
  have "\<forall>i<length facets. \<exists>linked.
                 linked_cell_set c s i = Inr linked
                 \<and> k_num_linked_cells (kernel_calls trace ! i) = length linked
                 \<and> 3 * length linked < length (k_blocks (kernel_calls trace ! i))
                 \<and> list_all zero_block
                      (take (3 * length linked + 1) (k_blocks (kernel_calls trace ! i)))"
  proof (intro allI impI)
    fix i assume "i < length facets"
    with k obtain linked where "linked_cell_set c s i = Inr linked"
      "k_num_linked_cells (kernel_calls trace ! i) = length linked"
      "3 * k_num_linked_cells (kernel_calls trace ! i) < length (k_blocks (kernel_calls trace ! i))"
      "list_all zero_block (take (3 * k_num_linked_cells (kernel_calls trace ! i) + 1)
             (k_blocks (kernel_calls trace ! i)))"
      by blast
    then have "linked_cell_set c s i = Inr linked
                 \<and> k_num_linked_cells (kernel_calls trace ! i) = length linked
                 \<and> 3 * length linked < length (k_blocks (kernel_calls trace ! i))
                 \<and> list_all zero_block
                      (take (3 * length linked + 1) (k_blocks (kernel_calls trace ! i)))"
      by simp
    then show "\<exists>linked.
                 linked_cell_set c s i = Inr linked
                 \<and> k_num_linked_cells (kernel_calls trace ! i) = length linked
                 \<and> 3 * length linked < length (k_blocks (kernel_calls trace ! i))
                 \<and> list_all zero_block
                      (take (3 * length linked + 1) (k_blocks (kernel_calls trace ! i)))"
      by (intro exI)
  qed
  with f n have "at2 (cell_facet_pairs c) s = Inr facets
           \<and> length (kernel_calls trace) = length facets
           \<and> (\<forall>i<length facets. \<exists>linked.
                 linked_cell_set c s i = Inr linked
                 \<and> k_num_linked_cells (kernel_calls trace ! i) = length linked
                 \<and> 3 * length linked < length (k_blocks (kernel_calls trace ! i))
                 \<and> list_all zero_block
                      (take (3 * length linked + 1) (k_blocks (kernel_calls trace ! i))))"
    by simp
  then show "\<exists>facets. at2 (cell_facet_pairs c) s = Inr facets
           \<and> length (kernel_calls trace) = length facets
           \<and> (\<forall>i<length facets. \<exists>linked.
                 linked_cell_set c s i = Inr linked
                 \<and> k_num_linked_cells (kernel_calls trace ! i) = length linked
                 \<and> 3 * length linked < length (k_blocks (kernel_calls trace ! i))
                 \<and> list_all zero_block
                      (take (3 * length linked + 1) (k_blocks (kernel_calls trace ! i))))"
    by (intro exI)
qed

text \<open>
  The first facet of surface \<open>0\<close> of the example has one linked cell: of seven blocks
  full of fives the blocks \<open>0\<close> to \<open>3\<close> are zeroed.  In the run over both facets the
  second call of the kernel has one zeroed block.
\<close>

theorem assemble_matrix_zero_fill_witness:
  "(\<exists>coordinate_dofs' Aes' events' args calls.
      assemble_matrix_facet example_contact example_locals example_kernel [] 0 [] 0
        (replicate 9 0, replicate 7 (replicate 36 5), []) = Inr (coordinate_dofs', Aes', events')
      \<and> events' = [] @ Kernel args # calls
      \<and> k_num_linked_cells args = 1
      \<and> zeroed 0 3 (replicate 7 (replicate 36 5)) (k_blocks args))
   \<and> (\<exists>trace. assemble_matrix example_contact 0 example_kernel [] 0 [] = Inr trace
        \<and> length (kernel_calls trace) = 2
        \<and> k_num_linked_cells (kernel_calls trace ! 0) = 1
        \<and> list_all zero_block (take 4 (k_blocks (kernel_calls trace ! 0)))
        \<and> k_num_linked_cells (kernel_calls trace ! 1) = 0
        \<and> list_all zero_block (take 1 (k_blocks (kernel_calls trace ! 1))))"
proof -
  let ?Aes = "replicate 7 (replicate 36 (5::int))"
  have "\<not> isl (assemble_matrix_facet example_contact example_locals example_kernel [] 0 [] 0
        (replicate 9 0, ?Aes, []))"
    by code_simp
  then obtain coordinate_dofs' Aes' events' where
    b: "assemble_matrix_facet example_contact example_locals example_kernel [] 0 [] 0
        (replicate 9 0, ?Aes, []) = Inr (coordinate_dofs', Aes', events')"
    by (cases "assemble_matrix_facet example_contact example_locals example_kernel [] 0 [] 0
        (replicate 9 0, ?Aes, [])") auto
  have g: "facet_geometry example_contact example_locals 0 (replicate 9 0)
     = Inr (0, 1, [0, 0, 0, 1, 0, 0, 0, 1, 0], [2])"
    by code_simp
  from assemble_matrix_zero_fill
    [where c = example_contact and l = example_locals and kernel_fn = example_kernel
       and coeffs = "[]" and cstride = 0 and constants = "[]" and i = 0
       and coordinate_dofs = "replicate 9 0" and Aes = ?Aes and events = "[]"
       and coordinate_dofs' = coordinate_dofs' and Aes' = Aes' and events' = events'] b
  obtain args calls cell local_index linked where
    e: "events' = [] @ Kernel args # calls"
    and g': "facet_geometry example_contact example_locals 0 (replicate 9 0)
        = Inr (cell, local_index, coordinate_dofs', linked)"
    and n: "k_num_linked_cells args = length linked"
    and z: "zeroed 0 (3 * length linked) ?Aes (k_blocks args)"
    by blast
  from g g' have "linked = [2]" by simp
  with n z have "k_num_linked_cells args = 1" "zeroed 0 3 ?Aes (k_blocks args)"
    by simp_all
  with b e have 1: "\<exists>coordinate_dofs' Aes' events' args calls.
      assemble_matrix_facet example_contact example_locals example_kernel [] 0 [] 0
        (replicate 9 0, ?Aes, []) = Inr (coordinate_dofs', Aes', events')
      \<and> events' = [] @ Kernel args # calls
      \<and> k_num_linked_cells args = 1
      \<and> zeroed 0 3 ?Aes (k_blocks args)"
    by blast
  have "\<not> isl (assemble_matrix example_contact 0 example_kernel [] 0 [])"
    by code_simp
  then obtain trace where t: "assemble_matrix example_contact 0 example_kernel [] 0 [] = Inr trace"
    by (cases "assemble_matrix example_contact 0 example_kernel [] 0 []") auto
  have f: "at2 (cell_facet_pairs example_contact) 0 = Inr [(0, 1), (1, 0)]"
    by code_simp
  have l0: "linked_cell_set example_contact 0 0 = Inr [2]" by code_simp
  have l1: "linked_cell_set example_contact 0 1 = Inr []" by code_simp
  from assemble_matrix_zero_fill
    [where c = example_contact and s = 0 and kernel_fn = example_kernel and coeffs = "[]"
       and cstride = 0 and constants = "[]" and trace = trace] t
  obtain facets where
    p: "at2 (cell_facet_pairs example_contact) 0 = Inr facets"
      "length (kernel_calls trace) = length facets"
      "\<forall>i<length facets. \<exists>linked.
                 linked_cell_set example_contact 0 i = Inr linked
                 \<and> k_num_linked_cells (kernel_calls trace ! i) = length linked
                 \<and> 3 * length linked < length (k_blocks (kernel_calls trace ! i))
                 \<and> list_all zero_block
                      (take (3 * length linked + 1) (k_blocks (kernel_calls trace ! i)))"
    by blast
  from p(1) f have facets: "facets = [(0, 1), (1, 0)]" by simp
  have "0 < length facets" by (simp add: facets)
  from p(3) [rule_format, OF this] l0
  have k0: "k_num_linked_cells (kernel_calls trace ! 0) = 1
      \<and> list_all zero_block (take 4 (k_blocks (kernel_calls trace ! 0)))"
    by auto
  have "1 < length facets" by (simp add: facets)
  from p(3) [rule_format, OF this] l1
  have k1: "k_num_linked_cells (kernel_calls trace ! 1) = 0
      \<and> list_all zero_block (take 1 (k_blocks (kernel_calls trace ! 1)))"
    by auto
  from t p(2) k0 k1 have 2: "\<exists>trace. assemble_matrix example_contact 0 example_kernel [] 0 [] = Inr trace
        \<and> length (kernel_calls trace) = 2
        \<and> k_num_linked_cells (kernel_calls trace ! 0) = 1
        \<and> list_all zero_block (take 4 (k_blocks (kernel_calls trace ! 0)))
        \<and> k_num_linked_cells (kernel_calls trace ! 1) = 0
        \<and> list_all zero_block (take 1 (k_blocks (kernel_calls trace ! 1)))"
    by (auto simp: facets)
  from 1 2 show ?thesis by simp
qed

text \<open>
  Claim C8.  In a run of \<open>assemble_matrix\<close> and in a run of \<open>assemble_vector\<close> that
  returns, the kernel is called once for each facet of the origin surface, and the
  permutation indicator of every call is \<open>0\<close>.
\<close>

theorem kernel_perm_neutral:
  fixes kernel_fn :: "('a::zero, 'g::zero) contact_kernel_fn"
    and kernel_fn' :: "('b::{zero,plus}, 'g::zero) contact_kernel_fn"
  shows
  "(assemble_matrix c s kernel_fn coeffs cstride constants = Inr trace \<longrightarrow>
      (\<exists>facets. at2 (cell_facet_pairs c) s = Inr facets
         \<and> map k_perm (kernel_calls trace) = replicate (length facets) 0))
   \<and> (assemble_vector c b s' kernel_fn' coeffs' cstride' constants' = Inr (b', trace') \<longrightarrow>
      (\<exists>facets. at2 (cell_facet_pairs c) s' = Inr facets
         \<and> map k_perm (kernel_calls trace') = replicate (length facets) 0))"
proof (intro conjI impI)
  assume "assemble_matrix c s kernel_fn coeffs cstride constants = Inr trace"
  from assemble_matrix_kernel_calls [OF this] obtain facets where
    f: "at2 (cell_facet_pairs c) s = Inr facets"
    and n: "length (kernel_calls trace) = length facets"
    and k: "\<forall>i<length facets. k_perm (kernel_calls trace ! i) = 0"
    by blast
  have "map k_perm (kernel_calls trace) = replicate (length facets) 0"
    using n k by (intro nth_equalityI) simp_all
  with f show "\<exists>facets. at2 (cell_facet_pairs c) s = Inr facets
         \<and> map k_perm (kernel_calls trace) = replicate (length facets) 0"
    by simp
next
  assume "assemble_vector c b s' kernel_fn' coeffs' cstride' constants' = Inr (b', trace')"
  from assemble_vector_Inr [OF this] obtain l where l: "assembly_locals c s' = Inr l"
    and "assemble_vector_loop c l b kernel_fn' coeffs' cstride' constants'
       [0..<length (active_facets l)] = Inr (b', trace')"
    by blast
  from assemble_vector_loop_Inr [OF this(2)] obtain coords' bes' where
    "for_each (assemble_vector_facet c l kernel_fn' coeffs' cstride' constants')
       [0..<length (active_facets l)]
        (b, replicate (3 * num_dofs_g c) 0,
         replicate (unat (max_links_both l + 1)) (replicate (bs c * ndofs_cell l) 0), [])
      = Inr (b', coords', bes', trace')"
    by blast
  from assemble_vector_loop_perm [OF this]
  have "map k_perm (kernel_calls trace') = replicate (length (active_facets l)) 0"
    by simp
  with assembly_locals_Inr(1) [OF l]
  show "\<exists>facets. at2 (cell_facet_pairs c) s' = Inr facets
         \<and> map k_perm (kernel_calls trace') = replicate (length facets) 0"
    by simp
qed

text \<open>The matrix of surface \<open>0\<close> and the vector of surface \<open>1\<close> of the example.\<close>

theorem kernel_perm_neutral_witness:
  "(\<exists>trace. assemble_matrix example_contact 0 example_kernel [] 0 [] = Inr trace
      \<and> map k_perm (kernel_calls trace) = [0, 0])
   \<and> (\<exists>b' trace'. assemble_vector example_contact (replicate 14 0) 1 example_kernel [] 0 []
        = Inr (b', trace')
      \<and> map k_perm (kernel_calls trace') = [0])"
proof -
  have "\<not> isl (assemble_matrix example_contact 0 example_kernel [] 0 [])"
    by code_simp
  then obtain trace where t: "assemble_matrix example_contact 0 example_kernel [] 0 [] = Inr trace"
    by (cases "assemble_matrix example_contact 0 example_kernel [] 0 []") auto
  have "\<not> isl (assemble_vector example_contact (replicate 14 0) 1 example_kernel [] 0 [])"
    by code_simp
  then obtain b' trace' where
    t': "assemble_vector example_contact (replicate 14 0) 1 example_kernel [] 0 [] = Inr (b', trace')"
    by (cases "assemble_vector example_contact (replicate 14 0) 1 example_kernel [] 0 []") auto
  have f: "at2 (cell_facet_pairs example_contact) 0 = Inr [(0, 1), (1, 0)]"
    by code_simp
  have f': "at2 (cell_facet_pairs example_contact) 1 = Inr [(2, 2)]"
    by code_simp
  from kernel_perm_neutral
    [where c = example_contact and s = 0 and kernel_fn = example_kernel and coeffs = "[]"
       and cstride = 0 and constants = "[]" and trace = trace and b = "replicate 14 0"
       and s' = 1 and kernel_fn' = example_kernel and coeffs' = "[]" and cstride' = 0
       and constants' = "[]" and b' = b' and trace' = trace'] t f
  have 1: "map k_perm (kernel_calls trace) = [0, 0]"
    by auto
  from kernel_perm_neutral
    [where c = example_contact and s = 0 and kernel_fn = example_kernel and coeffs = "[]"
       and cstride = 0 and constants = "[]" and trace = trace and b = "replicate 14 0"
       and s' = 1 and kernel_fn' = example_kernel and coeffs' = "[]" and cstride' = 0
       and constants' = "[]" and b' = b' and trace' = trace'] t' f'
  have 2: "map k_perm (kernel_calls trace') = [0]"
    by auto
  from t t' 1 2 show ?thesis by simp
qed

subsection \<open>\<^verbatim>\<open>create_petsc_matrix\<close>\<close>

lemma for_each_covers:
  fixes s :: "'x set"
  assumes "for_each body xs s = Inr s'"
    and mono: "\<And>x t t'. body x t = Inr t' \<Longrightarrow> t \<subseteq> t'"
    and est: "\<And>x t t'. x \<in> set xs \<Longrightarrow> body x t = Inr t' \<Longrightarrow> Q x \<subseteq> t'"
  shows "s \<subseteq> s' \<and> (\<forall>x\<in>set xs. Q x \<subseteq> s')"
  using assms(1) est
proof (induction xs arbitrary: s)
  case Nil
  then show ?case by simp
next
  case (Cons x xs)
  from Cons.prems(1) obtain t where t: "body x s = Inr t" and r: "for_each body xs t = Inr s'"
    by (auto simp: bind_eq_Inr)
  have "t \<subseteq> s' \<and> (\<forall>x\<in>set xs. Q x \<subseteq> s')"
  proof (rule Cons.IH [OF r])
    fix y u u' assume "y \<in> set xs" "body y u = Inr u'"
    then show "Q y \<subseteq> u'" using Cons.prems(2) [of y u u'] by simp
  qed
  moreover have "s \<subseteq> t" using mono [OF t] .
  moreover have "Q x \<subseteq> t" using Cons.prems(2) [of x s t] t by simp
  ultimately show ?case by auto
qed

lemma linked_cell_Inr:
  "linked_cell fmap pcells f = Inr p \<longleftrightarrow>
     f < length fmap \<and> length (fmap ! f) = 2 \<and> fmap ! f ! 0 < length pcells \<and> p = pcells ! (fmap ! f ! 0)"
  by (auto simp: linked_cell_cases)

lemma push_linked_dofs_Inr:
  "push_linked_dofs dofmap fmap pcells f acc = Inr ld \<longleftrightarrow>
     f < length fmap \<and> fmap ! f \<noteq> [] \<and> fmap ! f ! 0 < length pcells
     \<and> pcells ! (fmap ! f ! 0) < length dofmap
     \<and> ld = acc @ dofmap ! (pcells ! (fmap ! f ! 0))"
  by (auto simp: push_linked_dofs_def bind_eq_Inr links_def at_eq_Inr)

lemma push_linked_dofs_loop:
  "for_each (push_linked_dofs dofmap fmap pcells) cands acc = Inr ld \<Longrightarrow>
   set acc \<subseteq> set ld \<and>
   (\<forall>f\<in>set cands. f < length fmap \<and> fmap ! f \<noteq> [] \<and> fmap ! f ! 0 < length pcells
      \<and> set (dofmap ! (pcells ! (fmap ! f ! 0))) \<subseteq> set ld)"
proof (induction cands arbitrary: acc)
  case Nil
  then show ?case by simp
next
  case (Cons f cands)
  from Cons.prems obtain acc' where a: "push_linked_dofs dofmap fmap pcells f acc = Inr acc'"
    and r: "for_each (push_linked_dofs dofmap fmap pcells) cands acc' = Inr ld"
    by (auto simp: bind_eq_Inr)
  from a have f: "f < length fmap" "fmap ! f \<noteq> []" "fmap ! f ! 0 < length pcells"
    and acc': "acc' = acc @ dofmap ! (pcells ! (fmap ! f ! 0))"
    by (simp_all add: push_linked_dofs_Inr)
  from Cons.IH [OF r] have "set acc' \<subseteq> set ld"
    and "\<forall>f\<in>set cands. f < length fmap \<and> fmap ! f \<noteq> [] \<and> fmap ! f ! 0 < length pcells
      \<and> set (dofmap ! (pcells ! (fmap ! f ! 0))) \<subseteq> set ld"
    by simp_all
  with f acc' show ?case by auto
qed

lemma set_erase_unique_radix_sort [simp]: "set (erase_unique (radix_sort xs)) = set xs"
  by (simp add: erase_unique_def radix_sort_def)

lemma compute_linked_cells_member:
  assumes "compute_linked_cells cands fmap pcells = Inr linked" "l \<in> set linked"
  shows "\<exists>f\<in>set cands. f < length fmap \<and> length (fmap ! f) = 2 \<and> l = pcells ! (fmap ! f ! 0)"
proof -
  from assms(1) obtain xs where xs: "transform (linked_cell fmap pcells) cands = Inr xs"
    and "linked = erase_unique (radix_sort xs)"
    by (auto simp: compute_linked_cells_def bind_eq_Inr)
  with assms(2) have "l \<in> set xs" by simp
  with transform_set [OF xs] obtain f where "f \<in> set cands" "linked_cell fmap pcells f = Inr l"
    by auto
  then show ?thesis by (auto simp: linked_cell_Inr)
qed

lemma insert_facet_Inr:
  assumes "insert_facet c dofmap s fmap pcells pairs i pattern = Inr pattern'"
  shows "pattern \<subseteq> pattern'"
    and "\<exists>m cands. at2 (facet_maps c) s = Inr m \<and> links m i = Inr cands
      \<and> (\<forall>f\<in>set cands. f < length fmap \<and> fmap ! f \<noteq> [] \<and> fmap ! f ! 0 < length pcells
            \<and> set (dofmap ! fst (pairs ! i)) \<times> set (dofmap ! (pcells ! (fmap ! f ! 0))) \<subseteq> pattern'
            \<and> set (dofmap ! (pcells ! (fmap ! f ! 0))) \<times> set (dofmap ! fst (pairs ! i)) \<subseteq> pattern')"
proof -
  from assms obtain dofs m cands ld where d: "links dofmap (fst (pairs ! i)) = Inr dofs"
    and m: "at2 (facet_maps c) s = Inr m" and cands: "links m i = Inr cands"
    and loop: "for_each (push_linked_dofs dofmap fmap pcells) cands [] = Inr ld"
    and p: "pattern' = insert_pattern (erase_unique (radix_sort ld)) dofs
             (insert_pattern dofs (erase_unique (radix_sort ld)) pattern)"
    by (auto simp: insert_facet_def bind_eq_Inr Let_def)
  from d have dofs: "dofs = dofmap ! fst (pairs ! i)"
    by (simp add: links_def at_eq_Inr)
  from p have p': "pattern' = pattern \<union> set dofs \<times> set ld \<union> set ld \<times> set dofs"
    by (simp add: insert_pattern_def)
  then show "pattern \<subseteq> pattern'" by auto
  from push_linked_dofs_loop [OF loop]
  have "\<forall>f\<in>set cands. f < length fmap \<and> fmap ! f \<noteq> [] \<and> fmap ! f ! 0 < length pcells
      \<and> set (dofmap ! (pcells ! (fmap ! f ! 0))) \<subseteq> set ld"
    by simp
  then have "\<forall>f\<in>set cands. f < length fmap \<and> fmap ! f \<noteq> [] \<and> fmap ! f ! 0 < length pcells
            \<and> set (dofmap ! fst (pairs ! i)) \<times> set (dofmap ! (pcells ! (fmap ! f ! 0))) \<subseteq> pattern'
            \<and> set (dofmap ! (pcells ! (fmap ! f ! 0))) \<times> set (dofmap ! fst (pairs ! i)) \<subseteq> pattern'"
    unfolding p' dofs by blast
  with m cands show "\<exists>m cands. at2 (facet_maps c) s = Inr m \<and> links m i = Inr cands
      \<and> (\<forall>f\<in>set cands. f < length fmap \<and> fmap ! f \<noteq> [] \<and> fmap ! f ! 0 < length pcells
            \<and> set (dofmap ! fst (pairs ! i)) \<times> set (dofmap ! (pcells ! (fmap ! f ! 0))) \<subseteq> pattern'
            \<and> set (dofmap ! (pcells ! (fmap ! f ! 0))) \<times> set (dofmap ! fst (pairs ! i)) \<subseteq> pattern')"
    by simp
qed

lemma insert_facet_coupling:
  assumes i: "insert_facet c dofmap s (facet_map sm) (parent_cells sm) pairs i pattern = Inr pattern'"
    and o: "at2 (opposites c) s = Inr opp" "at2 (submeshes c) opp = Inr sm"
    and f: "at2 (cell_facet_pairs c) s = Inr pairs"
  shows "coupling_entries c dofmap s i \<subseteq> pattern'"
proof (cases "linked_cell_set c s i")
  case (Inl e)
  then show ?thesis by (simp add: coupling_entries_def f)
next
  case (Inr linked)
  from insert_facet_Inr(2) [OF i] obtain m cands where m: "at2 (facet_maps c) s = Inr m"
    and cands: "links m i = Inr cands"
    and sub: "\<forall>f\<in>set cands. f < length (facet_map sm) \<and> facet_map sm ! f \<noteq> []
            \<and> facet_map sm ! f ! 0 < length (parent_cells sm)
            \<and> set (dofmap ! fst (pairs ! i))
                \<times> set (dofmap ! (parent_cells sm ! (facet_map sm ! f ! 0))) \<subseteq> pattern'
            \<and> set (dofmap ! (parent_cells sm ! (facet_map sm ! f ! 0)))
                \<times> set (dofmap ! fst (pairs ! i)) \<subseteq> pattern'"
    by blast
  from Inr m o cands have lc: "compute_linked_cells cands (facet_map sm) (parent_cells sm) = Inr linked"
    by (simp add: linked_cell_set_def)
  have "set (dofmap ! fst (pairs ! i)) \<times> set (dofmap ! l)
             \<union> set (dofmap ! l) \<times> set (dofmap ! fst (pairs ! i)) \<subseteq> pattern'"
    if "l \<in> set linked" for l
  proof -
    from compute_linked_cells_member [OF lc that] obtain f where "f \<in> set cands"
      "l = parent_cells sm ! (facet_map sm ! f ! 0)"
      by blast
    with sub show ?thesis by blast
  qed
  then show ?thesis by (auto simp: coupling_entries_def f Inr)
qed

lemma insert_surface_Inr:
  assumes "insert_surface c dofmap s pattern = Inr pattern'"
  shows "pattern \<subseteq> pattern'"
    and "\<exists>facets. at2 (cell_facet_pairs c) s = Inr facets
       \<and> (\<forall>i<length facets. coupling_entries c dofmap s i \<subseteq> pattern')"
proof -
  from assms obtain opp sm pairs where o: "at2 (opposites c) s = Inr opp"
    "at2 (submeshes c) opp = Inr sm"
    and f: "at2 (cell_facet_pairs c) s = Inr pairs"
    and loop: "for_each (insert_facet c dofmap s (facet_map sm) (parent_cells sm) pairs)
       [0..<length pairs] pattern = Inr pattern'"
    by (auto simp: insert_surface_def bind_eq_Inr)
  have "pattern \<subseteq> pattern' \<and> (\<forall>i\<in>set [0..<length pairs]. coupling_entries c dofmap s i \<subseteq> pattern')"
  proof (rule for_each_covers [OF loop])
    fix x t t'
    assume "insert_facet c dofmap s (facet_map sm) (parent_cells sm) pairs x t = Inr t'"
    then show "t \<subseteq> t'" by (rule insert_facet_Inr(1))
  next
    fix x t t'
    assume "insert_facet c dofmap s (facet_map sm) (parent_cells sm) pairs x t = Inr t'"
    then show "coupling_entries c dofmap s x \<subseteq> t'"
      using o f by (rule insert_facet_coupling)
  qed
  then show "pattern \<subseteq> pattern'"
    and "\<exists>facets. at2 (cell_facet_pairs c) s = Inr facets
       \<and> (\<forall>i<length facets. coupling_entries c dofmap s i \<subseteq> pattern')"
    using f by simp_all
qed

lemma create_petsc_matrix_Inr:
  assumes "create_petsc_matrix c a = Inr pattern"
  shows "function_spaces a \<noteq> []"
    and "create_sparsity_pattern a \<subseteq> pattern"
    and "\<forall>s<2. \<exists>facets. at2 (cell_facet_pairs c) s = Inr facets
       \<and> (\<forall>i<length facets. coupling_entries c (function_spaces a ! 0) s i \<subseteq> pattern)"
proof -
  let ?dofmap = "function_spaces a ! 0"
  from assms have ne: "function_spaces a \<noteq> []"
    and loop: "for_each (insert_surface c ?dofmap) [0, 1] (create_sparsity_pattern a) = Inr pattern"
    by (auto simp: create_petsc_matrix_def Let_def bind_eq_Inr vector_at_def split: if_splits)
  let ?Q = "\<lambda>s. {e. \<exists>facets. at2 (cell_facet_pairs c) s = Inr facets
       \<and> (\<exists>i<length facets. e \<in> coupling_entries c ?dofmap s i)}"
  have "create_sparsity_pattern a \<subseteq> pattern \<and> (\<forall>s\<in>set [0, 1]. ?Q s \<subseteq> pattern)"
  proof (rule for_each_covers [OF loop])
    fix x t t'
    assume "insert_surface c ?dofmap x t = Inr t'"
    then show "t \<subseteq> t'" by (rule insert_surface_Inr(1))
  next
    fix x t t'
    assume "insert_surface c ?dofmap x t = Inr t'"
    from insert_surface_Inr(2) [OF this] show "?Q x \<subseteq> t'" by auto
  qed
  then have base: "create_sparsity_pattern a \<subseteq> pattern"
    and q: "?Q 0 \<subseteq> pattern" "?Q 1 \<subseteq> pattern"
    by simp_all
  have f: "at2 (cell_facet_pairs c) 0 = Inr (fst (cell_facet_pairs c))"
    "at2 (cell_facet_pairs c) 1 = Inr (snd (cell_facet_pairs c))"
    by (simp_all add: at2_def)
  show "function_spaces a \<noteq> []" by (rule ne)
  show "create_sparsity_pattern a \<subseteq> pattern" by (rule base)
  show "\<forall>s<2. \<exists>facets. at2 (cell_facet_pairs c) s = Inr facets
       \<and> (\<forall>i<length facets. coupling_entries c ?dofmap s i \<subseteq> pattern)"
  proof (intro allI impI)
    fix s :: nat assume "s < 2"
    then consider "s = 0" | "s = 1" by linarith
    then show "\<exists>facets. at2 (cell_facet_pairs c) s = Inr facets
       \<and> (\<forall>i<length facets. coupling_entries c ?dofmap s i \<subseteq> pattern)"
    proof cases
      case 1
      with f(1) q(1) show ?thesis by auto
    next
      case 2
      with f(2) q(2) show ?thesis by auto
    qed
  qed
qed

lemma for_each_each:
  "for_each body xs s = Inr s' \<Longrightarrow> x \<in> set xs \<Longrightarrow> \<exists>t t'. body x t = Inr t'"
proof (induction xs arbitrary: s)
  case Nil
  then show ?case by simp
next
  case (Cons y xs)
  from Cons.prems(1) obtain t where t: "body y s = Inr t" and r: "for_each body xs t = Inr s'"
    by (auto simp: bind_eq_Inr)
  show ?case
  proof (cases "x = y")
    case True
    with t show ?thesis by blast
  next
    case False
    with Cons.prems(2) have "x \<in> set xs" by simp
    from Cons.IH [OF r this] show ?thesis .
  qed
qed

lemma push_linked_dofs_loop_inside:
  "for_each (push_linked_dofs dofmap fmap pcells) cands acc = Inr ld \<Longrightarrow> f \<in> set cands \<Longrightarrow>
   pcells ! (fmap ! f ! 0) < length dofmap"
proof -
  assume "for_each (push_linked_dofs dofmap fmap pcells) cands acc = Inr ld" "f \<in> set cands"
  from for_each_each [OF this] obtain t t' where "push_linked_dofs dofmap fmap pcells f t = Inr t'"
    by blast
  then show ?thesis by (simp add: push_linked_dofs_Inr)
qed

lemma insert_facet_inside:
  assumes i: "insert_facet c dofmap s (facet_map sm) (parent_cells sm) pairs i pattern = Inr pattern'"
    and o: "at2 (opposites c) s = Inr opp" "at2 (submeshes c) opp = Inr sm"
    and lc: "linked_cell_set c s i = Inr linked"
  shows "fst (pairs ! i) < length dofmap \<and> (\<forall>l\<in>set linked. l < length dofmap)"
proof -
  from i obtain dofs m cands ld where d: "links dofmap (fst (pairs ! i)) = Inr dofs"
    and m: "at2 (facet_maps c) s = Inr m" and cands: "links m i = Inr cands"
    and loop: "for_each (push_linked_dofs dofmap (facet_map sm) (parent_cells sm)) cands [] = Inr ld"
    by (auto simp: insert_facet_def bind_eq_Inr Let_def)
  from lc m o cands have c: "compute_linked_cells cands (facet_map sm) (parent_cells sm) = Inr linked"
    by (simp add: linked_cell_set_def)
  have "l < length dofmap" if "l \<in> set linked" for l
  proof -
    from compute_linked_cells_member [OF c that] obtain f where "f \<in> set cands"
      "l = parent_cells sm ! (facet_map sm ! f ! 0)"
      by blast
    with push_linked_dofs_loop_inside [OF loop] show ?thesis by simp
  qed
  moreover from d have "fst (pairs ! i) < length dofmap"
    by (simp add: links_def at_eq_Inr)
  ultimately show ?thesis by simp
qed

lemma insert_surface_inside:
  assumes "insert_surface c dofmap s pattern = Inr pattern'"
    and f: "at2 (cell_facet_pairs c) s = Inr facets" and i: "i < length facets"
    and lc: "linked_cell_set c s i = Inr linked"
  shows "fst (facets ! i) < length dofmap \<and> (\<forall>l\<in>set linked. l < length dofmap)"
proof -
  from assms(1) f obtain opp sm where o: "at2 (opposites c) s = Inr opp"
    "at2 (submeshes c) opp = Inr sm"
    and loop: "for_each (insert_facet c dofmap s (facet_map sm) (parent_cells sm) facets)
       [0..<length facets] pattern = Inr pattern'"
    by (auto simp: insert_surface_def bind_eq_Inr)
  from i have "i \<in> set [0..<length facets]" by simp
  from for_each_each [OF loop this] obtain t t' where
    "insert_facet c dofmap s (facet_map sm) (parent_cells sm) facets i t = Inr t'"
    by blast
  from insert_facet_inside [OF this o lc] show ?thesis .
qed

lemma create_petsc_matrix_inside:
  assumes "create_petsc_matrix c a = Inr pattern" and s: "s < 2"
    and f: "at2 (cell_facet_pairs c) s = Inr facets" and i: "i < length facets"
    and lc: "linked_cell_set c s i = Inr linked"
  shows "fst (facets ! i) < length (function_spaces a ! 0)
     \<and> (\<forall>l\<in>set linked. l < length (function_spaces a ! 0))"
proof -
  from assms(1) have
    loop: "for_each (insert_surface c (function_spaces a ! 0)) [0, 1] (create_sparsity_pattern a)
       = Inr pattern"
    by (auto simp: create_petsc_matrix_def Let_def bind_eq_Inr vector_at_def split: if_splits)
  from s have "s \<in> set [0, 1]" by auto
  from for_each_each [OF loop this] obtain t t' where
    "insert_surface c (function_spaces a ! 0) s t = Inr t'"
    by blast
  from insert_surface_inside [OF this f i lc] show ?thesis .
qed

text \<open>
  Claim C4.  Let \<open>create_petsc_matrix\<close> return a pattern, and let \<open>l\<close> be a cell of the
  LinkedCellSet of a facet of one of the two surfaces, \<open>cell\<close> being the cell of the facet.
  Then both are cells of the dof map of the form, and the pattern holds every pair of a dof
  of \<open>cell\<close> and a dof of \<open>l\<close>, in both orders.  The pattern of the form itself is kept.
\<close>

theorem create_petsc_matrix_symmetric:
  "create_petsc_matrix c a = Inr pattern \<and> s < 2
   \<and> at2 (cell_facet_pairs c) s = Inr facets \<and> i < length facets
   \<and> linked_cell_set c s i = Inr linked \<and> l \<in> set linked
   \<and> dofmap = function_spaces a ! 0 \<and> cell = fst (facets ! i)
   \<longrightarrow> cell < length dofmap \<and> l < length dofmap
     \<and> set (dofmap ! cell) \<times> set (dofmap ! l) \<subseteq> pattern
     \<and> set (dofmap ! l) \<times> set (dofmap ! cell) \<subseteq> pattern
     \<and> create_sparsity_pattern a \<subseteq> pattern"
proof (intro impI)
  assume a: "create_petsc_matrix c a = Inr pattern \<and> s < 2
   \<and> at2 (cell_facet_pairs c) s = Inr facets \<and> i < length facets
   \<and> linked_cell_set c s i = Inr linked \<and> l \<in> set linked
   \<and> dofmap = function_spaces a ! 0 \<and> cell = fst (facets ! i)"
  then have r: "create_petsc_matrix c a = Inr pattern" and s: "s < 2"
    and f: "at2 (cell_facet_pairs c) s = Inr facets" and i: "i < length facets"
    and lc: "linked_cell_set c s i = Inr linked" and l: "l \<in> set linked"
    and [simp]: "dofmap = function_spaces a ! 0" "cell = fst (facets ! i)"
    by blast+
  from create_petsc_matrix_inside [OF r s f i lc] l
  have inside: "cell < length dofmap \<and> l < length dofmap" by simp
  from create_petsc_matrix_Inr(3) [OF r, rule_format, OF s] obtain facets' where
    "at2 (cell_facet_pairs c) s = Inr facets'"
    "\<forall>i<length facets'. coupling_entries c (function_spaces a ! 0) s i \<subseteq> pattern"
    by blast
  with f i have "coupling_entries c (function_spaces a ! 0) s i \<subseteq> pattern"
    by simp
  moreover have "set (dofmap ! cell) \<times> set (dofmap ! l) \<union> set (dofmap ! l) \<times> set (dofmap ! cell)
      \<subseteq> coupling_entries c (function_spaces a ! 0) s i"
    using l by (auto simp: coupling_entries_def f lc)
  ultimately have "set (dofmap ! cell) \<times> set (dofmap ! l) \<subseteq> pattern
     \<and> set (dofmap ! l) \<times> set (dofmap ! cell) \<subseteq> pattern"
    by blast
  with inside create_petsc_matrix_Inr(2) [OF r]
  show "cell < length dofmap \<and> l < length dofmap
     \<and> set (dofmap ! cell) \<times> set (dofmap ! l) \<subseteq> pattern
     \<and> set (dofmap ! l) \<times> set (dofmap ! cell) \<subseteq> pattern
     \<and> create_sparsity_pattern a \<subseteq> pattern"
    by simp
qed

text \<open>
  The first facet of surface \<open>0\<close> of the example: its cell \<open>0\<close> has the dofs \<open>0\<close>, \<open>1\<close>
  and \<open>2\<close>, the linked cell \<open>2\<close> has the dofs \<open>4\<close>, \<open>5\<close> and \<open>6\<close>.
\<close>

theorem create_petsc_matrix_symmetric_witness:
  "\<exists>pattern. create_petsc_matrix example_contact example_form = Inr pattern
     \<and> at2 (cell_facet_pairs example_contact) 0 = Inr [(0, 1), (1, 0)]
     \<and> linked_cell_set example_contact 0 0 = Inr [2]
     \<and> set [0, 1, 2] \<times> set [4, 5, 6] \<subseteq> pattern
     \<and> set [4, 5, 6] \<times> set [0, 1, 2] \<subseteq> pattern"
proof -
  have "\<exists>pattern. create_petsc_matrix example_contact example_form = Inr pattern"
    by (simp add: create_petsc_matrix_def example_form_def example_contact_def vector_at_def
        insert_surface_def at2_def insert_facet_def links_def at_def push_linked_dofs_def Let_def)
  then obtain pattern where p: "create_petsc_matrix example_contact example_form = Inr pattern" ..
  have f: "at2 (cell_facet_pairs example_contact) 0 = Inr [(0, 1), (1, 0)]"
    by code_simp
  have lc: "linked_cell_set example_contact 0 0 = Inr [2]"
    by code_simp
  have d: "function_spaces example_form ! 0 ! fst ([(0, 1), (1, 0)] ! 0) = [0, 1, 2]"
    "function_spaces example_form ! 0 ! 2 = [4, 5, 6]"
    by (simp_all add: example_form_def example_contact_def)
  from create_petsc_matrix_symmetric
    [where c = example_contact and a = example_form and pattern = pattern and s = 0
       and facets = "[(0, 1), (1, 0)]" and i = 0 and linked = "[2]" and l = 2
       and dofmap = "function_spaces example_form ! 0" and cell = "fst ([(0, 1), (1, 0)] ! 0)"]
    p f lc
  have "set (function_spaces example_form ! 0 ! fst ([(0, 1), (1, 0)] ! 0))
          \<times> set (function_spaces example_form ! 0 ! 2) \<subseteq> pattern
     \<and> set (function_spaces example_form ! 0 ! 2)
          \<times> set (function_spaces example_form ! 0 ! fst ([(0, 1), (1, 0)] ! 0)) \<subseteq> pattern"
    by simp
  then have "set [0, 1, 2] \<times> set [4, 5, 6] \<subseteq> pattern
     \<and> set [4, 5, 6] \<times> set [0, 1, 2] \<subseteq> pattern"
    unfolding d .
  with p f lc show ?thesis by blast
qed

subsection \<open>\<^verbatim>\<open>assemble_vector\<close>: the entries that are written\<close>

lemma agree_refl [simp]: "agree S xs xs"
  by (simp add: agree_def)

lemma agree_trans: "agree S xs ys \<Longrightarrow> agree S ys zs \<Longrightarrow> agree S xs zs"
  by (auto simp: agree_def)

lemma agree_mono: "agree S xs ys \<Longrightarrow> S \<subseteq> T \<Longrightarrow> agree T xs ys"
  by (auto simp: agree_def)

lemma agree_update:
  assumes "p \<in> S"
  shows "agree S xs (xs[p := v])"
  unfolding agree_def
proof (intro conjI allI impI)
  show "length xs = length (xs[p := v])" by simp
next
  fix q assume "q \<notin> S"
  with assms have "p \<noteq> q" by blast
  then show "xs ! q = xs[p := v] ! q" by simp
qed

lemma block_indices_I:
  assumes "dof \<in> set dofs" "k < block_size"
  shows "block_size * dof + k \<in> block_indices block_size dofs"
  unfolding block_indices_def
proof (rule UN_I [OF assms(1)])
  from assms(2) have "k \<in> {0..<block_size}" by simp
  then show "block_size * dof + k \<in> (\<lambda>k. block_size * dof + k) ` {0..<block_size}"
    by (rule imageI)
qed

lemma for_each_agree:
  assumes "for_each body xs b = Inr b'"
    and "\<And>x t t'. x \<in> set xs \<Longrightarrow> body x t = Inr t' \<Longrightarrow> agree S t t'"
  shows "agree S b b'"
proof -
  have "agree S b b'"
  proof (rule for_each_invariant [OF assms(1), where P = "agree S b"])
    show "agree S b b" by simp
  next
    fix x t t' assume "x \<in> set xs" "agree S b t" "body x t = Inr t'"
    with assms(2) [of x t t'] show "agree S b t'" by (blast intro: agree_trans)
  qed
  then show ?thesis .
qed

lemma add_block_agree:
  assumes "add_block block_size ndofs dofs bes blk b = Inr b'"
  shows "agree (block_indices block_size dofs) b b'"
  using assms unfolding add_block_def
proof (rule for_each_agree)
  fix j t t'
  assume "for_each (\<lambda>k b.
           bind (at dofs j) (\<lambda>dof.
           bind (at bes blk) (\<lambda>be.
           bind (at be (block_size * j + k)) (\<lambda>v.
           bind (at b (block_size * dof + k)) (\<lambda>old.
           put b (block_size * dof + k) (old + v))))))
         [0..<block_size] t = Inr t'"
  then show "agree (block_indices block_size dofs) t t'"
  proof (rule for_each_agree)
    fix k u u'
    assume k: "k \<in> set [0..<block_size]"
      and "bind (at dofs j) (\<lambda>dof.
           bind (at bes blk) (\<lambda>be.
           bind (at be (block_size * j + k)) (\<lambda>v.
           bind (at u (block_size * dof + k)) (\<lambda>old.
           put u (block_size * dof + k) (old + v))))) = Inr u'"
    then obtain v where j: "j < length dofs"
      and u': "u' = u[block_size * (dofs ! j) + k := v]"
      by (auto simp: bind_eq_Inr at_eq_Inr put_eq_Inr)
    from j k have "block_size * (dofs ! j) + k \<in> block_indices block_size dofs"
      by (intro block_indices_I) simp_all
    then show "agree (block_indices block_size dofs) u u'"
      unfolding u' by (rule agree_update)
  qed
qed

lemma add_element_vector_agree:
  assumes "add_element_vector c ndofs cell linked bes b = Inr b'"
  shows "agree (\<Union>cell\<in>set (cell # linked). block_indices (bs c) (cell_dofs c ! cell)) b b'"
proof -
  let ?S = "\<Union>cell\<in>set (cell # linked). block_indices (bs c) (cell_dofs c ! cell)"
  from assms obtain dofs_cell b1 where d: "links (cell_dofs c) cell = Inr dofs_cell"
    and b1: "add_block (bs c) ndofs dofs_cell bes 0 b = Inr b1"
    and loop: "for_each (\<lambda>l b.
         bind (links (cell_dofs c) (linked ! l)) (\<lambda>dofs_linked.
         add_block (bs c) ndofs dofs_linked bes (l + 1) b))
       [0..<length linked] b1 = Inr b'"
    by (auto simp: add_element_vector_def bind_eq_Inr)
  from d have "dofs_cell = cell_dofs c ! cell" by (simp add: links_def at_eq_Inr)
  with add_block_agree [OF b1] have 1: "agree ?S b b1"
    by (auto intro: agree_mono)
  from loop have 2: "agree ?S b1 b'"
  proof (rule for_each_agree)
    fix l t t'
    assume l: "l \<in> set [0..<length linked]"
      and "bind (links (cell_dofs c) (linked ! l)) (\<lambda>dofs_linked.
         add_block (bs c) ndofs dofs_linked bes (l + 1) t) = Inr t'"
    then have "add_block (bs c) ndofs (cell_dofs c ! (linked ! l)) bes (l + 1) t = Inr t'"
      by (auto simp: bind_eq_Inr links_def at_eq_Inr)
    from add_block_agree [OF this] l show "agree ?S t t'"
      by (auto intro: agree_mono)
  qed
  from 1 2 show ?thesis by (rule agree_trans)
qed

lemma facet_geometry_cells:
  assumes l: "assembly_locals c s = Inr l"
    and g: "facet_geometry c l i coords = Inr (cell, li, coords', linked)"
  shows "facet_cells c s i = cell # linked" and "i < length (active_facets l)"
    and "linked_cell_set c s i = Inr linked"
proof -
  from facet_geometry_Inr [OF g] assembly_locals_Inr(2) [OF l, of i]
  have lc: "linked_cell_set c s i = Inr linked" and i: "i < length (active_facets l)"
    and f: "active_facets l ! i = (cell, li)"
    by simp_all
  with assembly_locals_Inr(1) [OF l] show "facet_cells c s i = cell # linked"
    by (simp add: facet_cells_def)
  show "i < length (active_facets l)" by (rule i)
  show "linked_cell_set c s i = Inr linked" by (rule lc)
qed

lemma assemble_vector_facet_agree:
  assumes l: "assembly_locals c s = Inr l"
    and "assemble_vector_facet c l K coeffs cstride constants i (b, coords, bes, events)
      = Inr (b', coords', bes', events')"
  shows "agree (facet_indices c s i) b b'" and "i < length (active_facets l)"
proof -
  from assemble_vector_facet_Inr [OF assms(2)] obtain cell li linked bes0 where
    g: "facet_geometry c l i coords = Inr (cell, li, coords', linked)"
    and a: "add_element_vector c (ndofs_cell l) cell linked bes' b = Inr b'"
    by blast
  from add_element_vector_agree [OF a] facet_geometry_cells(1) [OF l g]
  show "agree (facet_indices c s i) b b'"
    by (simp add: facet_indices_def)
  from facet_geometry_cells(2) [OF l g] show "i < length (active_facets l)" .
qed

text \<open>
  Claim C10.  When \<open>assemble_vector\<close> returns, the vector has kept its length, and every
  entry whose index is not \<open>bs * dof + k\<close> with \<open>k < bs\<close>, for a dof of the cell of a
  facet of the origin surface or of a cell of the LinkedCellSet of such a facet, has kept
  its value.
\<close>

theorem assemble_vector_frame:
  fixes kernel_fn :: "('a::{zero,plus}, 'g::zero) contact_kernel_fn"
  shows
  "assemble_vector c b s kernel_fn coeffs cstride constants = Inr (b', trace) \<longrightarrow>
     length b' = length b \<and> (\<forall>p<length b. p \<notin> assembled_indices c s \<longrightarrow> b' ! p = b ! p)"
proof
  assume "assemble_vector c b s kernel_fn coeffs cstride constants = Inr (b', trace)"
  from assemble_vector_Inr [OF this] obtain l where l: "assembly_locals c s = Inr l"
    and "assemble_vector_loop c l b kernel_fn coeffs cstride constants
       [0..<length (active_facets l)] = Inr (b', trace)"
    by blast
  from assemble_vector_loop_Inr [OF this(2)] obtain coords' bes' where
    loop: "for_each (assemble_vector_facet c l kernel_fn coeffs cstride constants)
       [0..<length (active_facets l)]
        (b, replicate (3 * num_dofs_g c) 0,
         replicate (unat (max_links_both l + 1)) (replicate (bs c * ndofs_cell l) 0), [])
      = Inr (b', coords', bes', trace)"
    by blast
  let ?T = "assembled_indices c s"
  have T: "facet_indices c s i \<subseteq> ?T" if "i < length (active_facets l)" for i
    using that assembly_locals_Inr(1) [OF l] by (auto simp: assembled_indices_def)
  have "agree ?T b (fst (b', coords', bes', trace))"
  proof (rule for_each_invariant [OF loop, where P = "\<lambda>st. agree ?T b (fst st)"])
    show "agree ?T b (fst (b, replicate (3 * num_dofs_g c) 0,
         replicate (unat (max_links_both l + 1)) (replicate (bs c * ndofs_cell l) 0), []))"
      by simp
  next
    fix i and t t' :: "'a list \<times> 'g list \<times> 'a list list \<times> ('a, 'g) event list"
    assume P: "agree ?T b (fst t)"
      and step: "assemble_vector_facet c l kernel_fn coeffs cstride constants i t = Inr t'"
    obtain b1 co1 bes1 ev1 where t: "t = (b1, co1, bes1, ev1)" by (cases t)
    obtain b2 co2 bes2 ev2 where t': "t' = (b2, co2, bes2, ev2)" by (cases t')
    from assemble_vector_facet_agree [OF l step [unfolded t t']]
    have "agree (facet_indices c s i) b1 b2" "i < length (active_facets l)"
      by simp_all
    with T [of i] have "agree ?T b1 b2" by (blast intro: agree_mono)
    with P show "agree ?T b (fst t')"
      unfolding t t' by (auto intro: agree_trans)
  qed
  then show "length b' = length b \<and> (\<forall>p<length b. p \<notin> assembled_indices c s \<longrightarrow> b' ! p = b ! p)"
    by (auto simp: agree_def)
qed

text \<open>
  Surface \<open>0\<close> of the example and a vector of sixteen entries: the dofs \<open>0\<close> to \<open>6\<close>
  of the cells have the indices \<open>0\<close> to \<open>13\<close>, and the entry \<open>14\<close> keeps its value.
\<close>

theorem assemble_vector_frame_witness:
  "\<exists>b' trace. assemble_vector example_contact (replicate 16 7) 0 example_kernel [] 0 []
       = Inr (b', trace)
     \<and> 14 \<notin> assembled_indices example_contact 0
     \<and> length b' = 16 \<and> b' ! 14 = 7"
proof -
  have "\<not> isl (assemble_vector example_contact (replicate 16 7) 0 example_kernel [] 0 [])"
    by code_simp
  then obtain b' trace where
    r: "assemble_vector example_contact (replicate 16 7) 0 example_kernel [] 0 [] = Inr (b', trace)"
    by (cases "assemble_vector example_contact (replicate 16 7) 0 example_kernel [] 0 []") auto
  have n: "14 \<notin> assembled_indices example_contact 0"
    by code_simp
  from assemble_vector_frame
    [where c = example_contact and b = "replicate 16 7" and s = 0 and kernel_fn = example_kernel
       and coeffs = "[]" and cstride = 0 and constants = "[]" and b' = b' and trace = trace] r
  have "length b' = length (replicate 16 (7::int))"
    and "\<forall>p<length (replicate 16 (7::int)). p \<notin> assembled_indices example_contact 0 \<longrightarrow>
       b' ! p = replicate 16 7 ! p"
    by blast+
  with n have "length b' = 16 \<and> b' ! 14 = 7" by simp
  with r n show ?thesis by blast
qed

subsection \<open>\<^verbatim>\<open>assemble_vector\<close>: the sum of the contributions\<close>





























subsection \<open>\<^verbatim>\<open>assemble_vector\<close>: the order of the facets\<close>




















lemma fan_locals: "assembly_locals fan_contact 0 = Inr fan_locals"
  by (simp add: assembly_locals_def fan_contact_def fan_locals_def at_def at2_def)

lemma rounding: "D (2 ^ 53) + D 1 = D (2 ^ 53) \<and> (D (2 ^ 53) + D (- (2 ^ 53))) + D 1 = D 1"
  by code_simp








text \<open>
  The three hypotheses on the kernel and the mesh are needed, also when the scalars are
  integers.  The kernel that reads block \<open>1\<close> for a facet without linked cells keeps the
  lengths of the blocks; the two orders of the facets of surface \<open>0\<close> of the example give
  two vectors.
\<close>

lemma stale_kernel_shape: "kernel_shape stale_kernel"
  unfolding kernel_shape_def stale_kernel_def
proof
  fix args :: "(int, int) kernel_args"
  show "map length ((k_blocks args)[0 := map (\<lambda>x. hd (k_blocks args ! 1)) (k_blocks args ! 0),
                     1 := map (\<lambda>x. 1) (k_blocks args ! 1)])
      = map length (k_blocks args)"
  proof (cases "k_blocks args")
    case Nil
    then show ?thesis by simp
  next
    case (Cons a as)
    then show ?thesis by (cases as) simp_all
  qed
qed

lemma stale_kernel_order:
  "map_sum id fst (assemble_vector_loop example_contact example_locals (replicate 14 0)
      stale_kernel [] 0 [] [0, 1]) = Inr [0, 0, 1, 1, 1, 1, 1, 1, 1, 1, 1, 1, 1, 1]
   \<and> map_sum id fst (assemble_vector_loop example_contact example_locals (replicate 14 0)
      stale_kernel [] 0 [] [1, 0]) = Inr [0, 0, 0, 0, 0, 0, 0, 0, 1, 1, 1, 1, 1, 1]"
  by code_simp

text \<open>
  The kernel that makes block \<open>0\<close> longer does not read beyond the blocks \<open>0\<close> to
  \<open>numLinked\<close>; the facets of the fan in the order of the code and in the reverse order
  give two vectors.
\<close>

lemma resizing_kernel_local: "kernel_local resizing_kernel"
  unfolding kernel_local_def resizing_kernel_def
proof (intro allI impI)
  fix args :: "(int, int) kernel_args" and blocks' :: "int list list"
  assume t: "take (k_num_linked_cells args + 1) blocks' = take (k_num_linked_cells args + 1) (k_blocks args)"
  show "take (k_num_linked_cells args + 1)
         ((k_blocks (args\<lparr>k_blocks := blocks'\<rparr>))
          [0 := (k_blocks (args\<lparr>k_blocks := blocks'\<rparr>) ! 0)
             [1 := int (length (k_blocks (args\<lparr>k_blocks := blocks'\<rparr>) ! 0))] @ [0]])
      = take (k_num_linked_cells args + 1)
         ((k_blocks args)[0 := (k_blocks args ! 0)[1 := int (length (k_blocks args ! 0))] @ [0]])"
    using t by (cases blocks'; cases "k_blocks args") simp_all
qed

lemma resizing_kernel_order:
  "map_sum id fst (assemble_vector_loop fan_contact fan_locals (replicate 5 0)
      resizing_kernel [] 0 [] [0, 1, 2]) = Inr [0, 3, 4, 5, 0]
   \<and> map_sum id fst (assemble_vector_loop fan_contact fan_locals (replicate 5 0)
      resizing_kernel [] 0 [] [2, 1, 0]) = Inr [0, 5, 4, 3, 0]"
  by code_simp

text \<open>
  The kernel that reads the coordinates of the third node keeps its contract; for the cell
  of two nodes the buffer holds there what the facet before has left.
\<close>

lemma coordinate_kernel_shape: "kernel_shape coordinate_kernel"
  unfolding kernel_shape_def coordinate_kernel_def
proof
  fix args :: "(int, int) kernel_args"
  show "map length ((k_blocks args)[0 := (k_blocks args ! 0)[1 := k_coordinate_dofs args ! 7]])
      = map length (k_blocks args)"
    by (cases "k_blocks args") simp_all
qed

lemma coordinate_kernel_local: "kernel_local coordinate_kernel"
  unfolding kernel_local_def coordinate_kernel_def
proof (intro allI impI)
  fix args :: "(int, int) kernel_args" and blocks' :: "int list list"
  assume t: "take (k_num_linked_cells args + 1) blocks' = take (k_num_linked_cells args + 1) (k_blocks args)"
  show "take (k_num_linked_cells args + 1)
         ((k_blocks (args\<lparr>k_blocks := blocks'\<rparr>))
          [0 := (k_blocks (args\<lparr>k_blocks := blocks'\<rparr>) ! 0)
             [1 := k_coordinate_dofs (args\<lparr>k_blocks := blocks'\<rparr>) ! 7]])
      = take (k_num_linked_cells args + 1)
         ((k_blocks args)[0 := (k_blocks args ! 0)[1 := k_coordinate_dofs args ! 7]])"
    using t by (cases blocks'; cases "k_blocks args") simp_all
qed

lemma short_cell_order:
  "map_sum id fst (assemble_vector_loop short_cell_contact fan_locals (replicate 5 0)
      coordinate_kernel [] 0 [] [0, 1, 2]) = Inr [0, 1, 1, - 1, 0]
   \<and> map_sum id fst (assemble_vector_loop short_cell_contact fan_locals (replicate 5 0)
      coordinate_kernel [] 0 [] [2, 1, 0]) = Inr [0, 1, - 1, - 1, 0]"
  by code_simp

end
